theory Spec2Isabelle
  imports Main
begin

section \<open>Python values and string operations\<close>

text \<open>
  The program is \<^verbatim>\<open>src/app.py\<close>. Its contact pipeline works on Python \<^verbatim>\<open>str\<close>
  values with the built-in methods \<^verbatim>\<open>strip\<close>, \<^verbatim>\<open>lower\<close>, \<^verbatim>\<open>upper\<close>,
  \<^verbatim>\<open>capitalize\<close>, \<^verbatim>\<open>split\<close>, \<^verbatim>\<open>find\<close>, slicing, \<^verbatim>\<open>in\<close> and two regular
  expression substitutions. A Python string is modelled as a HOL \<open>string\<close>, one
  \<open>char\<close> per code point, so the strings of the model are the Python strings over the
  code points 0 to 255. Whitespace and upper-casing, on which the validator depends, are
  Python's on all of these code points. Lower-casing, \<^verbatim>\<open>capitalize\<close> and the word
  characters are Python's on the code points 0 to 127; there a character above 127 is
  carried through unchanged and is not a word character.
\<close>

definition ascii_uppercase :: string where
  "ascii_uppercase = ''ABCDEFGHIJKLMNOPQRSTUVWXYZ''"

definition ascii_lowercase :: string where
  "ascii_lowercase = ''abcdefghijklmnopqrstuvwxyz''"

definition digits :: string where
  "digits = ''0123456789''"

text \<open>
  \<^verbatim>\<open>str.isspace\<close> on the code points 0 to 255: tab, line feed, vertical tab, form
  feed, carriage return, the four separators 0x1C to 0x1F, the space, next line (0x85)
  and the no-break space (0xA0). The same set is stripped by \<^verbatim>\<open>strip()\<close>, split on
  by \<^verbatim>\<open>split()\<close> and matched by \<^verbatim>\<open>\s\<close>.
\<close>

definition whitespace :: string where
  "whitespace = [CHR 0x09, CHR 0x0A, CHR 0x0B, CHR 0x0C, CHR 0x0D,
                 CHR 0x1C, CHR 0x1D, CHR 0x1E, CHR 0x1F, CHR 0x20,
                 CHR 0x85, CHR 0xA0]"

definition isspace :: "char \<Rightarrow> bool" where
  "isspace c = (c \<in> set whitespace)"

text \<open>\<^verbatim>\<open>\w\<close>: letters, digits and the underscore.\<close>

definition is_word :: "char \<Rightarrow> bool" where
  "is_word c = (c \<in> set (ascii_lowercase @ ascii_uppercase @ digits @ ''_''))"

definition lower_char :: "char \<Rightarrow> char" where
  "lower_char c = (case map_of (zip ascii_uppercase ascii_lowercase) c of
                     Some d \<Rightarrow> d | None \<Rightarrow> c)"

definition upper_char :: "char \<Rightarrow> char" where
  "upper_char c = (case map_of (zip ascii_lowercase ascii_uppercase) c of
                     Some d \<Rightarrow> d | None \<Rightarrow> c)"

definition lower :: "string \<Rightarrow> string" where
  "lower s = map lower_char s"

text \<open>
  \<^verbatim>\<open>s.upper()\<close> on the code points 0 to 255. It is not a map on characters: the
  sharp s (0xDF) becomes the two letters \<^verbatim>\<open>SS\<close>, and the upper-case forms of the
  micro sign (0xB5) and of y with diaeresis (0xFF) are the code points 0x39C and 0x178,
  beyond 255. So the result is a list of code points, each a character of the model or
  a wider one. The letters 0xE0 to 0xFE other than the division sign 0xF7 have their
  upper-case forms 32 places lower.
\<close>

datatype codepoint = Ch char | Wide nat

definition latin1_lowercase :: string where
  "latin1_lowercase =
     [CHR 0xE0, CHR 0xE1, CHR 0xE2, CHR 0xE3, CHR 0xE4, CHR 0xE5, CHR 0xE6, CHR 0xE7,
      CHR 0xE8, CHR 0xE9, CHR 0xEA, CHR 0xEB, CHR 0xEC, CHR 0xED, CHR 0xEE, CHR 0xEF,
      CHR 0xF0, CHR 0xF1, CHR 0xF2, CHR 0xF3, CHR 0xF4, CHR 0xF5, CHR 0xF6,
      CHR 0xF8, CHR 0xF9, CHR 0xFA, CHR 0xFB, CHR 0xFC, CHR 0xFD, CHR 0xFE]"

definition latin1_uppercase :: string where
  "latin1_uppercase =
     [CHR 0xC0, CHR 0xC1, CHR 0xC2, CHR 0xC3, CHR 0xC4, CHR 0xC5, CHR 0xC6, CHR 0xC7,
      CHR 0xC8, CHR 0xC9, CHR 0xCA, CHR 0xCB, CHR 0xCC, CHR 0xCD, CHR 0xCE, CHR 0xCF,
      CHR 0xD0, CHR 0xD1, CHR 0xD2, CHR 0xD3, CHR 0xD4, CHR 0xD5, CHR 0xD6,
      CHR 0xD8, CHR 0xD9, CHR 0xDA, CHR 0xDB, CHR 0xDC, CHR 0xDD, CHR 0xDE]"

definition upper_codepoints :: "char \<Rightarrow> codepoint list" where
  "upper_codepoints c =
     (if c = CHR 0xDF then [Ch CHR ''S'', Ch CHR ''S'']
      else if c = CHR 0xB5 then [Wide 0x39C]
      else if c = CHR 0xFF then [Wide 0x178]
      else (case map_of (zip (ascii_lowercase @ latin1_lowercase)
                             (ascii_uppercase @ latin1_uppercase)) c of
              Some d \<Rightarrow> [Ch d]
            | None \<Rightarrow> [Ch c]))"

definition upper :: "string \<Rightarrow> codepoint list" where
  "upper s = concat (map upper_codepoints s)"

text \<open>
  \<^verbatim>\<open>s.capitalize()\<close>: the first character upper-cased, the rest lower-cased, on the
  code points 0 to 127.
\<close>

fun capitalize :: "string \<Rightarrow> string" where
  "capitalize [] = []"
| "capitalize (c # cs) = upper_char c # lower cs"

text \<open>\<^verbatim>\<open>s.strip()\<close>: leading and trailing whitespace removed.\<close>

definition lstrip :: "string \<Rightarrow> string" where
  "lstrip s = dropWhile isspace s"

definition rstrip :: "string \<Rightarrow> string" where
  "rstrip s = rev (dropWhile isspace (rev s))"

definition strip :: "string \<Rightarrow> string" where
  "strip s = rstrip (lstrip s)"

text \<open>
  \<^verbatim>\<open>s.split(sep)\<close> for a one-character separator: the pieces between the
  separators, empty pieces included; the result is never empty
  (\<^verbatim>\<open>''.split(',') == ['']\<close>).
\<close>

fun split_on :: "char \<Rightarrow> string \<Rightarrow> string list" where
  "split_on sep [] = [[]]"
| "split_on sep (c # cs) =
     (if c = sep then [] # split_on sep cs
      else (case split_on sep cs of
              p # ps \<Rightarrow> (c # p) # ps
            | [] \<Rightarrow> [[c]]))"

text \<open>
  \<^verbatim>\<open>s.split()\<close> without argument: the maximal runs of non-whitespace characters.
  The first argument is the run being read.
\<close>

fun split_ws_from :: "string \<Rightarrow> string \<Rightarrow> string list" where
  "split_ws_from cur [] = (if cur = [] then [] else [cur])"
| "split_ws_from cur (c # cs) =
     (if isspace c then (if cur = [] then split_ws_from [] cs
                         else cur # split_ws_from [] cs)
      else split_ws_from (cur @ [c]) cs)"

definition split_ws :: "string \<Rightarrow> string list" where
  "split_ws s = split_ws_from [] s"

text \<open>\<^verbatim>\<open>sep.join(parts)\<close>.\<close>

fun join :: "string \<Rightarrow> string list \<Rightarrow> string" where
  "join sep [] = []"
| "join sep [p] = p"
| "join sep (p # q # ps) = p @ sep @ join sep (q # ps)"

text \<open>\<^verbatim>\<open>s.find(c)\<close>: the index of the first occurrence, or -1.\<close>

definition find_char :: "char \<Rightarrow> string \<Rightarrow> int" where
  "find_char c s = (if c \<in> set s then int (length (takeWhile (\<lambda>d. d \<noteq> c) s)) else - 1)"

text \<open>
  Slicing \<^verbatim>\<open>s[a:b]\<close> with Python's treatment of the bounds: a negative bound counts
  from the end, and every bound is clamped to the string.
\<close>

definition slice_bound :: "string \<Rightarrow> int \<Rightarrow> nat" where
  "slice_bound s i =
     (let n = int (length s)
      in if i < 0 then nat (max (i + n) 0) else nat (min i n))"

definition slice :: "string \<Rightarrow> int \<Rightarrow> int \<Rightarrow> string" where
  "slice s a b = drop (slice_bound s a) (take (slice_bound s b) s)"

text \<open>
  \<^verbatim>\<open>s.startswith(p)\<close> and the substring test \<^verbatim>\<open>p in s\<close>, on strings and on
  lists of code points.
\<close>

fun startswith :: "'a list \<Rightarrow> 'a list \<Rightarrow> bool" where
  "startswith s [] = True"
| "startswith [] (p # ps) = False"
| "startswith (c # cs) (p # ps) = (c = p \<and> startswith cs ps)"

fun contains :: "'a list \<Rightarrow> 'a list \<Rightarrow> bool" where
  "contains [] p = (p = [])"
| "contains (c # cs) p = (startswith (c # cs) p \<or> contains cs p)"

text \<open>
  The two substitutions of the name cleaner:
  \<^verbatim>\<open>re.sub(r'[^\w\s]', ' ', s)\<close> replaces every character that is neither a word
  character nor whitespace by a space, and \<^verbatim>\<open>re.sub(r'\s+', ' ', s)\<close> replaces every
  maximal run of whitespace by one space.
\<close>

definition sub_nonword :: "string \<Rightarrow> string" where
  "sub_nonword s = map (\<lambda>c. if is_word c \<or> isspace c then c else CHR '' '') s"

text \<open>The flag says whether the previous character was whitespace.\<close>

fun sub_spaces_from :: "bool \<Rightarrow> string \<Rightarrow> string" where
  "sub_spaces_from in_run [] = []"
| "sub_spaces_from in_run (c # cs) =
     (if isspace c then (if in_run then sub_spaces_from True cs
                         else CHR '' '' # sub_spaces_from True cs)
      else c # sub_spaces_from False cs)"

definition sub_spaces :: "string \<Rightarrow> string" where
  "sub_spaces s = sub_spaces_from False s"

text \<open>
  The argument of the validator and of the extractor can be any Python object. What the
  code asks of it is whether it is a \<^verbatim>\<open>str\<close> and what \<^verbatim>\<open>str(obj)\<close> gives, so an
  object is a string, \<^verbatim>\<open>None\<close>, or another object described by the outcome of
  \<^verbatim>\<open>str(obj)\<close>: a string, or nothing when its \<^verbatim>\<open>__str__\<close> raises.
\<close>

datatype pyobj = Str string | NoneObj | Other "string option"

datatype exn = ValueError | IndexError | StrError

fun py_str :: "pyobj \<Rightarrow> exn + string" where
  "py_str (Str s) = Inr s"
| "py_str NoneObj = Inr ''None''"
| "py_str (Other (Some s)) = Inr s"
| "py_str (Other None) = Inl StrError"

section \<open>The address validator\<close>

text \<open>
  \<^verbatim>\<open>is_valid_email\<close> (lines 514 to 535). The body of its \<^verbatim>\<open>try\<close> block is
  \<open>is_valid_email_try\<close>; the unpacking \<^verbatim>\<open>username, domain = parts\<close> raises
  \<^verbatim>\<open>ValueError\<close> unless \<^verbatim>\<open>parts\<close> has two elements. The handler
  \<^verbatim>\<open>except Exception: return False\<close> is in \<open>is_valid_email\<close>. A marker is a
  string literal of the source; \<open>map Ch\<close> reads it as the list of its code points for
  the test \<^verbatim>\<open>p in upper\<close>.
\<close>

definition markers :: "string list" where
  "markers = [''/O='', ''/OU='', ''/CN='', ''MIDBOROMGMNT'',
              ''FIRST ADMINISTRATIVE GROUP'', ''RECIPIENTS'']"

fun unpack2 :: "'a list \<Rightarrow> exn + ('a \<times> 'a)" where
  "unpack2 [a, b] = Inr (a, b)"
| "unpack2 _ = Inl ValueError"

definition is_valid_email_try :: "pyobj \<Rightarrow> exn + bool" where
  "is_valid_email_try obj =
     (case obj of
        Str s \<Rightarrow>
          (let email = strip s in
           if email = [] \<or> startswith email ''/'' then Inr False
           else if CHR ''@'' \<notin> set email \<or> CHR ''.'' \<notin> set email then Inr False
           else if list_ex (\<lambda>p. contains (upper email) (map Ch p)) markers then Inr False
           else (let parts = split_on CHR ''@'' email in
                 if length parts \<noteq> 2 then Inr False
                 else (case unpack2 parts of
                         Inl e \<Rightarrow> Inl e
                       | Inr (username, domain) \<Rightarrow>
                           if username = [] \<or> domain = [] \<or> CHR ''.'' \<notin> set domain
                           then Inr False
                           else Inr True)))
      | _ \<Rightarrow> Inr False)"

definition is_valid_email :: "pyobj \<Rightarrow> bool" where
  "is_valid_email obj = (case is_valid_email_try obj of Inl e \<Rightarrow> False | Inr b \<Rightarrow> b)"

section \<open>The contact builders\<close>

text \<open>
  A contact is the dictionary with the five keys \<^verbatim>\<open>full_name\<close>, \<^verbatim>\<open>first_name\<close>,
  \<^verbatim>\<open>last_name\<close>, \<^verbatim>\<open>email\<close> and \<^verbatim>\<open>domain\<close> that both builders create; the
  value of \<^verbatim>\<open>domain\<close> is a string or \<^verbatim>\<open>None\<close>.
\<close>

record contact =
  full_name :: string
  first_name :: string
  last_name :: string
  email :: string
  domain :: "string option"

text \<open>Indexing \<^verbatim>\<open>xs[i]\<close> with a constant index: \<^verbatim>\<open>IndexError\<close> out of range.\<close>

definition getitem :: "'a list \<Rightarrow> nat \<Rightarrow> exn + 'a" where
  "getitem xs i = (if i < length xs then Inr (xs ! i) else Inl IndexError)"

text \<open>
  \<^verbatim>\<open>extract_domain_from_email\<close> (lines 503 to 511), called on strings only, for
  which \<^verbatim>\<open>pd.isna\<close> is false. Its bare \<^verbatim>\<open>except\<close> turns an exception into
  \<^verbatim>\<open>None\<close>.
\<close>

definition extract_domain_from_email :: "string \<Rightarrow> string option" where
  "extract_domain_from_email e =
     (if e = [] \<or> CHR ''@'' \<notin> set e then None
      else (case getitem (split_on CHR ''@'' e) 1 of
              Inl err \<Rightarrow> None
            | Inr d \<Rightarrow> Some (strip d)))"

text \<open>
  \<^verbatim>\<open>create_contact_from_email_only\<close> (lines 439 to 467): the \<^verbatim>\<open>try\<close> block, then
  the function with its handler \<^verbatim>\<open>except Exception: return None\<close>.
\<close>

definition create_contact_from_email_only_try :: "string \<Rightarrow> exn + contact" where
  "create_contact_from_email_only_try e =
     (case getitem (split_on CHR ''@'' e) 0 of
        Inl err \<Rightarrow> Inl err
      | Inr username \<Rightarrow>
          (case (if CHR ''.'' \<in> set username then
                   (let parts = split_on CHR ''.'' username in
                    if length parts \<ge> 2 then
                      (case getitem parts 0 of
                         Inl err \<Rightarrow> Inl err
                       | Inr p0 \<Rightarrow>
                           (case getitem parts 1 of
                              Inl err \<Rightarrow> Inl err
                            | Inr p1 \<Rightarrow> Inr (capitalize p0, capitalize p1)))
                    else Inr (capitalize username, []))
                 else Inr (capitalize username, [])) of
             Inl err \<Rightarrow> Inl err
           | Inr (first_nm, last_nm) \<Rightarrow>
               Inr \<lparr>full_name = capitalize username,
                    first_name = first_nm,
                    last_name = last_nm,
                    email = e,
                    domain = extract_domain_from_email e\<rparr>))"

definition create_contact_from_email_only :: "string \<Rightarrow> contact option" where
  "create_contact_from_email_only e =
     (case create_contact_from_email_only_try e of Inl err \<Rightarrow> None | Inr c \<Rightarrow> Some c)"

text \<open>
  \<^verbatim>\<open>create_contact_from_name_email\<close> (lines 470 to 500). \<open>Inr None\<close> is the
  \<^verbatim>\<open>return None\<close> of a cleaned name shorter than two characters.
\<close>

definition create_contact_from_name_email_try :: "string \<Rightarrow> string \<Rightarrow> exn + contact option" where
  "create_contact_from_name_email_try name_text0 e =
     (let name_text = strip (sub_spaces (sub_nonword name_text0)) in
      if name_text = [] \<or> length name_text < 2 then Inr None
      else
        (let name_parts = split_ws name_text in
         case (if length name_parts \<ge> 2 then
                 (case getitem name_parts 0 of
                    Inl err \<Rightarrow> Inl err
                  | Inr p0 \<Rightarrow> Inr (p0, join '' '' (drop 1 name_parts)))
               else Inr (name_text, [])) of
           Inl err \<Rightarrow> Inl err
         | Inr (first_nm, last_nm) \<Rightarrow>
             Inr (Some \<lparr>full_name = name_text,
                        first_name = first_nm,
                        last_name = last_nm,
                        email = e,
                        domain = extract_domain_from_email e\<rparr>)))"

definition create_contact_from_name_email :: "string \<Rightarrow> string \<Rightarrow> contact option" where
  "create_contact_from_name_email name_text e =
     (case create_contact_from_name_email_try name_text e of Inl err \<Rightarrow> None | Inr r \<Rightarrow> r)"

section \<open>The field extractor\<close>

text \<open>
  \<^verbatim>\<open>extract_multiple_contacts\<close> (lines 395 to 436). \<open>extract_part\<close> is the body of
  the loop for a non-empty part: it takes the list \<^verbatim>\<open>contacts\<close> and returns it,
  possibly with one more contact appended. A built contact is a dictionary with five
  keys, so \<^verbatim>\<open>if contact:\<close> is the test that the builder did not return \<^verbatim>\<open>None\<close>.
\<close>

definition extract_part :: "string \<Rightarrow> contact list \<Rightarrow> contact list" where
  "extract_part contact_part contacts =
     (if CHR ''<'' \<in> set contact_part \<and> CHR ''>'' \<in> set contact_part then
        (let email_start = find_char CHR ''<'' contact_part;
             email_end = find_char CHR ''>'' contact_part in
         if email_start \<noteq> - 1 \<and> email_end \<noteq> - 1 then
           (let name_text = strip (slice contact_part 0 email_start);
                e = strip (slice contact_part (email_start + 1) email_end) in
            if name_text \<noteq> [] \<and> e \<noteq> [] \<and> is_valid_email (Str e) then
              (case create_contact_from_name_email name_text e of
                 Some c \<Rightarrow> contacts @ [c]
               | None \<Rightarrow> contacts)
            else contacts)
         else contacts)
      else if CHR ''@'' \<in> set contact_part \<and> CHR ''.'' \<in> set contact_part then
        (let e = strip contact_part in
         if is_valid_email (Str e) then
           (case create_contact_from_email_only e of
              Some c \<Rightarrow> contacts @ [c]
            | None \<Rightarrow> contacts)
         else contacts)
      else contacts)"

fun extract_loop :: "string list \<Rightarrow> contact list \<Rightarrow> contact list" where
  "extract_loop [] contacts = contacts"
| "extract_loop (contact_part # rest) contacts =
     (if contact_part = [] then extract_loop rest contacts
      else extract_loop rest (extract_part contact_part contacts))"

text \<open>
  The \<^verbatim>\<open>try\<close> block. Inside the loop every operation is a total method of
  \<^verbatim>\<open>str\<close> or one of the helpers above, each of which catches its own exceptions;
  the one operation of the block that can raise is the coercion \<^verbatim>\<open>str(text)\<close>.
  \<open>Inl\<close> carries the exception together with the value the variable
  \<^verbatim>\<open>contacts\<close> has when it is raised, which is what the handler
  \<^verbatim>\<open>except Exception: return contacts\<close> returns.
\<close>

definition extract_multiple_contacts_try :: "pyobj \<Rightarrow> (exn \<times> contact list) + contact list" where
  "extract_multiple_contacts_try obj =
     (let contacts = [] in
      case py_str obj of
        Inl err \<Rightarrow> Inl (err, contacts)
      | Inr t \<Rightarrow>
          (let text = strip t in
           if text = [] \<or> text = ''nan'' \<or> text = ''None'' then Inr contacts
           else
             (let contact_parts = map strip (split_on CHR '','' text);
                  contacts = extract_loop contact_parts contacts in
              Inr (filter (\<lambda>c. is_valid_email (Str (email c))) contacts))))"

definition extract_multiple_contacts :: "pyobj \<Rightarrow> contact list" where
  "extract_multiple_contacts obj =
     (case extract_multiple_contacts_try obj of
        Inl (err, contacts) \<Rightarrow> contacts
      | Inr valid_contacts \<Rightarrow> valid_contacts)"

section \<open>Deduplication\<close>

text \<open>
  The loop of lines 107 to 116. Every contact has the key \<^verbatim>\<open>email\<close>, so the default
  of \<^verbatim>\<open>contact.get('email', '')\<close> is not used. The loop state is the set
  \<^verbatim>\<open>seen_emails\<close> and the list \<^verbatim>\<open>unique_contacts\<close>.
\<close>

definition email_key :: "contact \<Rightarrow> string" where
  "email_key c = lower (strip (email c))"

fun dedupe_loop :: "contact list \<Rightarrow> string set \<Rightarrow> contact list \<Rightarrow> contact list" where
  "dedupe_loop [] seen_emails unique_contacts = unique_contacts"
| "dedupe_loop (c # cs) seen_emails unique_contacts =
     (let e = email_key c in
      if e \<noteq> [] \<and> e \<notin> seen_emails then
        dedupe_loop cs (insert e seen_emails) (unique_contacts @ [c\<lparr>email := e\<rparr>])
      else dedupe_loop cs seen_emails unique_contacts)"

definition dedupe :: "contact list \<Rightarrow> contact list" where
  "dedupe contacts = dedupe_loop contacts {} []"

text \<open>
  The three metrics of lines 155 to 157, shown when at least one contact is left:
  total, unique, and duplicates removed. Python integers are unbounded.
\<close>

definition statistics :: "contact list \<Rightarrow> (int \<times> int \<times> int) option" where
  "statistics contacts =
     (let unique_contacts = dedupe contacts in
      if unique_contacts \<noteq> [] then
        Some (int (length contacts), int (length unique_contacts),
              int (length contacts) - int (length unique_contacts))
      else None)"

text \<open>
  The deduplicator as the statement of section 4.5 words it: position \<open>i\<close> is kept when
  its key is not empty and no earlier position has the same key; a kept contact has its
  email replaced by the key; the kept contacts stay in input order.
\<close>

definition first_seen :: "contact list \<Rightarrow> nat \<Rightarrow> bool" where
  "first_seen xs i =
     (email_key (xs ! i) \<noteq> [] \<and> (\<forall>j < i. email_key (xs ! j) \<noteq> email_key (xs ! i)))"

definition dedupe_spec :: "contact list \<Rightarrow> contact list" where
  "dedupe_spec xs =
     map (\<lambda>i. (xs ! i)\<lparr>email := email_key (xs ! i)\<rparr>)
         (filter (first_seen xs) [0 ..< length xs])"

subsection \<open>The loop on a store of dictionaries\<close>

text \<open>
  In Python a contact is a mutable dictionary and the list \<^verbatim>\<open>contacts\<close> holds
  references. The store is the list of all dictionaries allocated so far, a reference is
  an index into it, and \<^verbatim>\<open>dict(contact)\<close> allocates a copy at the end of the store.
  The loop reads the list \<^verbatim>\<open>contacts\<close> and never assigns to it.
\<close>

definition dict_copy :: "contact list \<Rightarrow> nat \<Rightarrow> contact list \<times> nat" where
  "dict_copy store r = (store @ [store ! r], length store)"

definition set_email :: "contact list \<Rightarrow> nat \<Rightarrow> string \<Rightarrow> contact list" where
  "set_email store r e = store[r := (store ! r)\<lparr>email := e\<rparr>]"

fun dedupe_store_loop ::
  "nat list \<Rightarrow> contact list \<Rightarrow> string set \<Rightarrow> nat list \<Rightarrow> contact list \<times> nat list" where
  "dedupe_store_loop [] store seen_emails unique_contacts = (store, unique_contacts)"
| "dedupe_store_loop (r # rs) store seen_emails unique_contacts =
     (let e = email_key (store ! r) in
      if e \<noteq> [] \<and> e \<notin> seen_emails then
        (let (store1, normalized) = dict_copy store r;
             store2 = set_email store1 normalized e in
         dedupe_store_loop rs store2 (insert e seen_emails) (unique_contacts @ [normalized]))
      else dedupe_store_loop rs store seen_emails unique_contacts)"

definition dedupe_store :: "contact list \<Rightarrow> nat list \<Rightarrow> contact list \<times> nat list" where
  "dedupe_store store contacts = dedupe_store_loop contacts store {} []"

text \<open>The non-empty keys of a list of contacts: what the loop adds to \<^verbatim>\<open>seen_emails\<close>.\<close>

definition keys_of :: "contact list \<Rightarrow> string set" where
  "keys_of xs = email_key ` set xs - {[]}"

section \<open>The statement's wording, for comparison\<close>

text \<open>
  The rules of the validator read on the string as it is given, with only the emptiness
  test made after trimming: the string is not empty after trimming, does not begin with
  a slash, contains an at sign and a dot, contains no marker after upper-casing, and
  splits at the at sign into exactly two non-empty parts, the second with a dot.
\<close>

definition rules_on_given_string :: "string \<Rightarrow> bool" where
  "rules_on_given_string s =
     (strip s \<noteq> [] \<and> \<not> startswith s ''/'' \<and>
      CHR ''@'' \<in> set s \<and> CHR ''.'' \<in> set s \<and>
      \<not> list_ex (\<lambda>p. contains (upper s) (map Ch p)) markers \<and>
      (case split_on CHR ''@'' s of
         [local_part, domain_part] \<Rightarrow>
           local_part \<noteq> [] \<and> domain_part \<noteq> [] \<and> CHR ''.'' \<in> set domain_part
       | _ \<Rightarrow> False))"

text \<open>
  The names of a bare address as section 4.2 words them: the local part split at its
  first dot into two pieces, each capitalized.
\<close>

definition names_on_first_dot :: "string \<Rightarrow> string \<times> string" where
  "names_on_first_dot local_part =
     (if CHR ''.'' \<in> set local_part then
        (capitalize (takeWhile (\<lambda>x. x \<noteq> CHR ''.'') local_part),
         capitalize (tl (dropWhile (\<lambda>x. x \<noteq> CHR ''.'') local_part)))
      else (capitalize local_part, []))"

text \<open>The substring of an address after its at sign.\<close>

definition after_at :: "string \<Rightarrow> string" where
  "after_at e = tl (dropWhile (\<lambda>x. x \<noteq> CHR ''@'') e)"

text \<open>
  The candidates of a bracketed part as section 4.3 words them: the text before the
  first opening bracket, and the text between that bracket and the first closing bracket
  after it.
\<close>

definition bracket_candidates :: "string \<Rightarrow> string \<times> string" where
  "bracket_candidates p =
     (takeWhile (\<lambda>x. x \<noteq> CHR ''<'') p,
      takeWhile (\<lambda>x. x \<noteq> CHR ''>'') (tl (dropWhile (\<lambda>x. x \<noteq> CHR ''<'') p)))"

text \<open>
  What both builders establish for a contact they return from a trimmed address: the
  stored address is trimmed and the stored domain is the one computed from it.
\<close>

definition well_built :: "contact \<Rightarrow> bool" where
  "well_built c = (strip (email c) = email c \<and> domain c = extract_domain_from_email (email c))"

section \<open>Facts about the string operations\<close>

lemmas table_defs = ascii_uppercase_def ascii_lowercase_def digits_def whitespace_def
  isspace_def is_word_def lower_char_def upper_char_def lower_def

lemmas upper_defs = upper_def upper_codepoints_def latin1_lowercase_def latin1_uppercase_def

lemmas strip_defs = lstrip_def rstrip_def strip_def

lemmas validator_eval = is_valid_email_def is_valid_email_try_def markers_def
  strip_defs table_defs upper_defs

lemma startswith_iff: "startswith s p \<longleftrightarrow> (\<exists>r. s = p @ r)"
  by (induction s p rule: startswith.induct) auto

lemma contains_iff: "contains s p \<longleftrightarrow> (\<exists>a b. s = a @ p @ b)"
proof (induction s)
  case Nil
  then show ?case by auto
next
  case (Cons c cs)
  show ?case
  proof
    assume "contains (c # cs) p"
    then consider "startswith (c # cs) p" | "contains cs p" by auto
    then show "\<exists>a b. c # cs = a @ p @ b"
    proof cases
      case 1
      then obtain r where "c # cs = p @ r" using startswith_iff by blast
      then have "c # cs = [] @ p @ r" by simp
      then show ?thesis by blast
    next
      case 2
      then obtain a b where "cs = a @ p @ b" using Cons.IH by blast
      then have "c # cs = (c # a) @ p @ b" by simp
      then show ?thesis by blast
    qed
  next
    assume "\<exists>a b. c # cs = a @ p @ b"
    then obtain a b where ab: "c # cs = a @ p @ b" by blast
    show "contains (c # cs) p"
    proof (cases a)
      case Nil
      with ab have "startswith (c # cs) p" using startswith_iff by auto
      then show ?thesis by simp
    next
      case (Cons x a')
      with ab have "cs = a' @ p @ b" by simp
      then have "contains cs p" using Cons.IH by blast
      then show ?thesis by simp
    qed
  qed
qed

lemma split_on_not_Nil: "split_on sep s \<noteq> []"
  by (induction s) (auto split: list.splits)

lemma split_on_notin: "sep \<notin> set s \<Longrightarrow> split_on sep s = [s]"
  by (induction s) auto

lemma split_on_first: "sep \<notin> set u \<Longrightarrow> split_on sep (u @ sep # r) = u # split_on sep r"
  by (induction u) auto

lemma length_split_on: "length (split_on sep s) = Suc (length (filter (\<lambda>c. c = sep) s))"
  by (induction s) (auto split: list.splits simp: split_on_not_Nil)

lemma split_on_two_iff:
  "split_on sep s = [u, d] \<longleftrightarrow> s = u @ sep # d \<and> sep \<notin> set u \<and> sep \<notin> set d"
proof
  assume h: "split_on sep s = [u, d]"
  have "sep \<in> set s"
  proof (rule ccontr)
    assume "sep \<notin> set s"
    then have "split_on sep s = [s]" by (rule split_on_notin)
    with h show False by simp
  qed
  then obtain a r where s: "s = a @ sep # r" and a: "sep \<notin> set a"
    by (meson split_list_first)
  then have "split_on sep s = a # split_on sep r" by (simp add: split_on_first)
  with h have ua: "u = a" and r: "split_on sep r = [d]" by auto
  have "sep \<notin> set r"
  proof
    assume "sep \<in> set r"
    then have "filter (\<lambda>c. c = sep) r \<noteq> []" by (auto simp: filter_empty_conv)
    then have "length (split_on sep r) \<ge> 2" by (cases "filter (\<lambda>c. c = sep) r") (auto simp: length_split_on)
    with r show False by simp
  qed
  then have "split_on sep r = [r]" by (rule split_on_notin)
  with r have "d = r" by simp
  with s a ua \<open>sep \<notin> set r\<close> show "s = u @ sep # d \<and> sep \<notin> set u \<and> sep \<notin> set d" by simp
next
  assume "s = u @ sep # d \<and> sep \<notin> set u \<and> sep \<notin> set d"
  then show "split_on sep s = [u, d]" by (simp add: split_on_first split_on_notin)
qed

lemma unpack2_length: "length xs = 2 \<Longrightarrow> unpack2 xs = Inr (xs ! 0, xs ! 1)"
  by (cases xs rule: unpack2.cases) auto

lemma length_two: "length xs = 2 \<longleftrightarrow> (\<exists>a b. xs = [a, b])"
  by (cases xs rule: unpack2.cases) auto

section \<open>The validator: rules and totality\<close>

lemma is_valid_email_Str:
  "is_valid_email (Str s) \<longleftrightarrow>
     (strip s \<noteq> [] \<and> \<not> startswith (strip s) ''/'' \<and>
      CHR ''@'' \<in> set (strip s) \<and> CHR ''.'' \<in> set (strip s) \<and>
      \<not> list_ex (\<lambda>p. contains (upper (strip s)) (map Ch p)) markers \<and>
      (\<exists>u d. split_on CHR ''@'' (strip s) = [u, d] \<and> u \<noteq> [] \<and> d \<noteq> [] \<and> CHR ''.'' \<in> set d))"
  by (auto simp: is_valid_email_def is_valid_email_try_def Let_def length_two split: if_splits)

lemma is_valid_email_not_Str: "(\<And>s. obj \<noteq> Str s) \<Longrightarrow> \<not> is_valid_email obj"
  by (cases obj) (auto simp: is_valid_email_def is_valid_email_try_def)

lemma ex_Str_eq: "(\<exists>s. Str x = Str s \<and> P s) \<Longrightarrow> P x"
  by simp

lemma ball_not_bex: "(\<forall>m \<in> A. \<nexists>a b. Q m a b) \<Longrightarrow> \<not> (\<exists>m \<in> A. \<exists>a b. Q m a b)"
  by blast

lemma is_valid_email_trimmed_rules:
  "is_valid_email obj \<longleftrightarrow>
      (\<exists>s. obj = Str s \<and>
        (let t = strip s in
           t \<noteq> [] \<and> (\<nexists>r. t = CHR ''/'' # r) \<and>
           CHR ''@'' \<in> set t \<and> CHR ''.'' \<in> set t \<and>
           (\<forall>m \<in> set [''/O='', ''/OU='', ''/CN='', ''MIDBOROMGMNT'',
                       ''FIRST ADMINISTRATIVE GROUP'', ''RECIPIENTS''].
              \<nexists>a b. upper t = a @ map Ch m @ b) \<and>
           (\<exists>u d. t = u @ CHR ''@'' # d \<and> CHR ''@'' \<notin> set u \<and> CHR ''@'' \<notin> set d \<and>
                  u \<noteq> [] \<and> d \<noteq> [] \<and> CHR ''.'' \<in> set d)))"
proof (cases "\<exists>s. obj = Str s")
  case False
  then show ?thesis using is_valid_email_not_Str [of obj] by auto
next
  case True
  then obtain s where obj: "obj = Str s" by blast
  have sw: "startswith (strip s) ''/'' \<longleftrightarrow> (\<exists>r. strip s = CHR ''/'' # r)"
    by (simp add: startswith_iff)
  have mk: "set markers = set [''/O='', ''/OU='', ''/CN='', ''MIDBOROMGMNT'',
                       ''FIRST ADMINISTRATIVE GROUP'', ''RECIPIENTS'']"
    by (simp only: markers_def)
  show ?thesis
    unfolding obj is_valid_email_Str Let_def sw list_ex_iff contains_iff split_on_two_iff mk
    by auto
qed

text \<open>
  C5 (amended): the validator accepts an object exactly when it is a string whose
  trimmed form \<open>t\<close> passes every rule: \<open>t\<close> is not empty, does not begin with a
  slash, contains an at sign and a dot, its upper-cased form contains none of the six
  markers \<^verbatim>\<open>/O=\<close>, \<^verbatim>\<open>/OU=\<close>, \<^verbatim>\<open>/CN=\<close>, \<^verbatim>\<open>MIDBOROMGMNT\<close>,
  \<^verbatim>\<open>FIRST ADMINISTRATIVE GROUP\<close>, \<^verbatim>\<open>RECIPIENTS\<close>, and \<open>t\<close> is \<open>u @ d\<close>
  around a single at sign with \<open>u\<close> and \<open>d\<close> not empty and a dot in \<open>d\<close>. In
  particular the directory-service address of the statement is rejected and
  \<^verbatim>\<open>jdoe@example.com\<close> is accepted. The further addresses are each decided by one
  rule: an object that is no string, a string empty after trimming, a leading slash with
  and without a space before it, a missing at sign or dot, each marker in lower or mixed
  case next to an accepted address one character away from it, the sharp s that
  upper-cases to \<^verbatim>\<open>SS\<close>, a no-break space that trimming removes, and the failures
  of the split at the at sign.
\<close>

theorem is_valid_email_rules:
  "(is_valid_email obj \<longleftrightarrow>
      (\<exists>s. obj = Str s \<and>
        (let t = strip s in
           t \<noteq> [] \<and> (\<nexists>r. t = CHR ''/'' # r) \<and>
           CHR ''@'' \<in> set t \<and> CHR ''.'' \<in> set t \<and>
           (\<forall>m \<in> set [''/O='', ''/OU='', ''/CN='', ''MIDBOROMGMNT'',
                       ''FIRST ADMINISTRATIVE GROUP'', ''RECIPIENTS''].
              \<nexists>a b. upper t = a @ map Ch m @ b) \<and>
           (\<exists>u d. t = u @ CHR ''@'' # d \<and> CHR ''@'' \<notin> set u \<and> CHR ''@'' \<notin> set d \<and>
                  u \<noteq> [] \<and> d \<noteq> [] \<and> CHR ''.'' \<in> set d))))
   \<and> \<not> is_valid_email (Str ''user@/O=ORG/OU=X/CN=RECIPIENTS/CN=JDOE'')
   \<and> is_valid_email (Str ''jdoe@example.com'')
   \<and> \<not> is_valid_email NoneObj
   \<and> \<not> is_valid_email (Str ''   '')
   \<and> \<not> is_valid_email (Str ''/x@y.z'')
   \<and> \<not> is_valid_email (Str '' /x@y.z'')
   \<and> \<not> is_valid_email (Str ''x.yz'')
   \<and> \<not> is_valid_email (Str ''x@yz'')
   \<and> \<not> is_valid_email (Str ''x/o=y@b.c'') \<and> is_valid_email (Str ''x/o-y@b.c'')
   \<and> \<not> is_valid_email (Str ''x/ou=y@b.c'') \<and> is_valid_email (Str ''x/ou-y@b.c'')
   \<and> \<not> is_valid_email (Str ''x/cn=y@b.c'') \<and> is_valid_email (Str ''x/cn-y@b.c'')
   \<and> \<not> is_valid_email (Str ''MidBoroMgmnt@b.c'') \<and> is_valid_email (Str ''MidBoroMgmt@b.c'')
   \<and> \<not> is_valid_email (Str ''first administrative group@b.c'')
   \<and> is_valid_email (Str ''first administrative grou@b.c'')
   \<and> \<not> is_valid_email (Str ''Recipients@b.c'') \<and> is_valid_email (Str ''recipient@b.c'')
   \<and> \<not> is_valid_email (Str (''recipient'' @ [CHR 0xDF] @ ''@b.c''))
   \<and> \<not> is_valid_email (Str ([CHR 0xA0] @ ''@b.c''))
   \<and> \<not> is_valid_email (Str ''a@b@c.d'')
   \<and> \<not> is_valid_email (Str ''a.b@'')
   \<and> \<not> is_valid_email (Str ''a.b@c'')"
proof -
  have r: "\<not> is_valid_email (Str ''user@/O=ORG/OU=X/CN=RECIPIENTS/CN=JDOE'')"
    "is_valid_email (Str ''jdoe@example.com'')"
    "\<not> is_valid_email NoneObj"
    "\<not> is_valid_email (Str ''   '')"
    "\<not> is_valid_email (Str ''/x@y.z'')"
    "\<not> is_valid_email (Str '' /x@y.z'')"
    "\<not> is_valid_email (Str ''x.yz'')"
    "\<not> is_valid_email (Str ''x@yz'')"
    by (simp_all add: validator_eval)
  have m1: "\<not> is_valid_email (Str ''x/o=y@b.c'')" "is_valid_email (Str ''x/o-y@b.c'')"
    "\<not> is_valid_email (Str ''x/ou=y@b.c'')" "is_valid_email (Str ''x/ou-y@b.c'')"
    "\<not> is_valid_email (Str ''x/cn=y@b.c'')" "is_valid_email (Str ''x/cn-y@b.c'')"
    by (simp_all add: validator_eval)
  have m2: "\<not> is_valid_email (Str ''MidBoroMgmnt@b.c'')" "is_valid_email (Str ''MidBoroMgmt@b.c'')"
    "\<not> is_valid_email (Str ''first administrative group@b.c'')"
    "is_valid_email (Str ''first administrative grou@b.c'')"
    "\<not> is_valid_email (Str ''Recipients@b.c'')" "is_valid_email (Str ''recipient@b.c'')"
    by (simp_all add: validator_eval)
  have m3: "\<not> is_valid_email (Str (''recipient'' @ [CHR 0xDF] @ ''@b.c''))"
    "\<not> is_valid_email (Str ([CHR 0xA0] @ ''@b.c''))"
    "\<not> is_valid_email (Str ''a@b@c.d'')"
    "\<not> is_valid_email (Str ''a.b@'')"
    "\<not> is_valid_email (Str ''a.b@c'')"
    by (simp_all add: validator_eval)
  from is_valid_email_trimmed_rules [of obj] r m1 m2 m3 show ?thesis
    by (intro conjI)
qed

theorem is_valid_email_rules_witness:
  "is_valid_email (Str ''  Bob@Mail.example.org '') \<and>
   (\<exists>u d. strip ''  Bob@Mail.example.org '' = u @ CHR ''@'' # d \<and> CHR ''@'' \<notin> set u \<and>
          CHR ''@'' \<notin> set d \<and> u \<noteq> [] \<and> d \<noteq> [] \<and> CHR ''.'' \<in> set d) \<and>
   \<not> (\<exists>m \<in> set [''/O='', ''/OU='', ''/CN='', ''MIDBOROMGMNT'',
                  ''FIRST ADMINISTRATIVE GROUP'', ''RECIPIENTS''].
        \<exists>a b. upper (strip ''  Bob@Mail.example.org '') = a @ map Ch m @ b)"
proof -
  have v: "is_valid_email (Str ''  Bob@Mail.example.org '')"
    by (simp add: validator_eval)
  note th = is_valid_email_rules [of "Str ''  Bob@Mail.example.org ''", THEN conjunct1,
      unfolded Let_def]
  note rest = ex_Str_eq [OF iffD1 [OF th v]]
  note mk = rest [THEN conjunct2, THEN conjunct2, THEN conjunct2, THEN conjunct2, THEN conjunct1]
  note sp = rest [THEN conjunct2, THEN conjunct2, THEN conjunct2, THEN conjunct2, THEN conjunct2]
  from v sp ball_not_bex [OF mk] show ?thesis by (intro conjI)
qed

text \<open>
  C5 as stated fails for a string that begins with whitespace followed by a slash: read
  on the string \<^verbatim>\<open> /x@y.z\<close> as given, every rule passes (it is not empty after
  trimming, its first character is a space, it has an at sign and a dot and no marker,
  and it splits into \<^verbatim>\<open> /x\<close> and \<^verbatim>\<open>y.z\<close>), but the validator trims first and
  rejects the string for its leading slash.
\<close>

theorem is_valid_email_given_string_counterexample:
  "rules_on_given_string '' /x@y.z'' \<and> \<not> is_valid_email (Str '' /x@y.z'')"
proof -
  have 1: "rules_on_given_string '' /x@y.z''"
    by (simp add: rules_on_given_string_def markers_def strip_defs table_defs upper_defs)
  have 2: "\<not> is_valid_email (Str '' /x@y.z'')" by (simp add: validator_eval)
  from 1 2 show ?thesis by (rule conjI)
qed

text \<open>
  C6: for every object (a string, \<^verbatim>\<open>None\<close>, any other object) the body of the
  validator ends with a boolean and never with an exception: the unpacking into two
  variables is only reached with a list of two parts. The validator returns that boolean.
\<close>

theorem is_valid_email_total: "is_valid_email_try obj = Inr (is_valid_email obj)"
  by (cases obj) (auto simp: is_valid_email_def is_valid_email_try_def Let_def unpack2_length)


theorem is_valid_email_total_witness:
  "is_valid_email_try NoneObj = Inr False \<and> is_valid_email_try (Str []) = Inr False \<and>
   is_valid_email_try (Other None) = Inr False \<and>
   is_valid_email_try (Str [CHR 0xE9, CHR ''@'', CHR 0xFC, CHR ''.'', CHR ''x'']) = Inr True"
proof -
  have "\<not> is_valid_email NoneObj" "\<not> is_valid_email (Str [])" "\<not> is_valid_email (Other None)"
    "is_valid_email (Str [CHR 0xE9, CHR ''@'', CHR 0xFC, CHR ''.'', CHR ''x''])"
    by (simp_all add: validator_eval)
  then show ?thesis
    using is_valid_email_total [of NoneObj] is_valid_email_total [of "Str []"]
      is_valid_email_total [of "Other None"]
      is_valid_email_total [of "Str [CHR 0xE9, CHR ''@'', CHR 0xFC, CHR ''.'', CHR ''x'']"]
    by simp
qed

section \<open>Facts about case folding and trimming\<close>

lemma map_of_zip_SomeD: "map_of (zip xs ys) c = Some d \<Longrightarrow> c \<in> set xs \<and> d \<in> set ys"
  by (meson map_of_SomeD set_zip_leftD set_zip_rightD)

lemma lower_char_cases:
  "lower_char c = c \<or> (c \<in> set ascii_uppercase \<and> lower_char c \<in> set ascii_lowercase)"
  by (auto simp: lower_char_def dest: map_of_zip_SomeD split: option.splits)

lemma lowercase_not_uppercase: "d \<in> set ascii_lowercase \<Longrightarrow> d \<notin> set ascii_uppercase"
  by (auto simp: ascii_lowercase_def ascii_uppercase_def)

lemma letters_not_space:
  "d \<in> set ascii_lowercase \<Longrightarrow> \<not> isspace d" "d \<in> set ascii_uppercase \<Longrightarrow> \<not> isspace d"
  by (auto simp: ascii_lowercase_def ascii_uppercase_def isspace_def whitespace_def)

lemma lower_char_fixed: "d \<notin> set ascii_uppercase \<Longrightarrow> lower_char d = d"
  by (auto simp: lower_char_def dest: map_of_zip_SomeD split: option.splits)

lemma lower_char_idem: "lower_char (lower_char c) = lower_char c"
  using lower_char_cases [of c] lower_char_fixed lowercase_not_uppercase by auto

lemma isspace_lower_char: "isspace (lower_char c) = isspace c"
  using lower_char_cases [of c] letters_not_space by auto

lemma lower_idem: "lower (lower s) = lower s"
  by (simp add: lower_def lower_char_idem)

lemma strip_lower: "strip (lower s) = lower (strip s)"
proof -
  have comp: "isspace \<circ> lower_char = isspace" by (auto simp: isspace_lower_char)
  show ?thesis
    by (simp add: strip_def lstrip_def rstrip_def lower_def dropWhile_map rev_map comp)
qed

lemma strip_ends:
  assumes "strip s \<noteq> []"
  shows "\<not> isspace (hd (strip s))" and "\<not> isspace (last (strip s))"
proof -
  define t where "t = dropWhile isspace s"
  define u where "u = dropWhile isspace (rev t)"
  have su: "strip s = rev u" by (simp add: strip_def lstrip_def rstrip_def t_def u_def)
  with assms have u: "u \<noteq> []" by simp
  then have t: "t \<noteq> []" by (auto simp: u_def)
  have "\<not> isspace (hd u)" using u unfolding u_def by (rule hd_dropWhile)
  then show "\<not> isspace (last (strip s))" using u by (simp add: su last_rev)
  have "last u = last (rev t)" using u unfolding u_def
    by (metis append_take_drop_id last_appendR takeWhile_dropWhile_id)
  then have "hd (strip s) = hd t" using t u by (simp add: su hd_rev last_rev)
  moreover have "\<not> isspace (hd t)" using t unfolding t_def by (rule hd_dropWhile)
  ultimately show "\<not> isspace (hd (strip s))" by simp
qed

lemma strip_id:
  assumes "s \<noteq> []" "\<not> isspace (hd s)" "\<not> isspace (last s)"
  shows "strip s = s"
proof -
  have 1: "dropWhile isspace s = s" using assms by (cases s) auto
  have 2: "dropWhile isspace (rev s) = rev s" using assms by (cases "rev s") (auto simp: last_rev [symmetric] hd_rev)
  show ?thesis by (simp add: strip_def lstrip_def rstrip_def 1 2)
qed

lemma strip_Nil: "strip [] = []"
  by (simp add: strip_def lstrip_def rstrip_def)

lemma strip_idem: "strip (strip s) = strip s"
proof (cases "strip s = []")
  case True
  then show ?thesis by (simp add: strip_Nil)
next
  case False
  then show ?thesis using strip_ends [of s] by (intro strip_id) auto
qed

section \<open>Deduplication: first seen wins\<close>

lemmas dedupe_eval = dedupe_def email_key_def strip_defs table_defs Let_def

lemma email_key_idem: "email_key (c\<lparr>email := email_key c\<rparr>) = email_key c"
  by (simp add: email_key_def strip_lower strip_idem lower_idem)

lemma dedupe_loop_acc: "dedupe_loop cs S acc = acc @ dedupe_loop cs S []"
proof (induction cs arbitrary: S acc)
  case Nil
  then show ?case by simp
next
  case (Cons c cs)
  show ?case
    using Cons.IH [of "insert (email_key c) S" "acc @ [c\<lparr>email := email_key c\<rparr>]"]
      Cons.IH [of "insert (email_key c) S" "[c\<lparr>email := email_key c\<rparr>]"]
      Cons.IH [of S acc]
    by (simp add: Let_def)
qed

lemma dedupe_loop_append:
  "dedupe_loop (xs @ ys) S acc = dedupe_loop ys (S \<union> keys_of xs) (dedupe_loop xs S acc)"
proof (induction xs arbitrary: S acc)
  case Nil
  then show ?case by (simp add: keys_of_def)
next
  case (Cons c cs)
  have a: "email_key c \<noteq> [] \<Longrightarrow> insert (email_key c) S \<union> keys_of cs = S \<union> keys_of (c # cs)"
    by (auto simp: keys_of_def)
  have b: "email_key c = [] \<or> email_key c \<in> S \<Longrightarrow> S \<union> keys_of cs = S \<union> keys_of (c # cs)"
    by (auto simp: keys_of_def)
  show ?case
  proof (cases "email_key c \<noteq> [] \<and> email_key c \<notin> S")
    case True
    then show ?thesis using Cons.IH a by (simp add: Let_def)
  next
    case False
    then show ?thesis using Cons.IH b by (auto simp add: Let_def)
  qed
qed

lemma dedupe_snoc:
  "dedupe (xs @ [c]) =
     dedupe xs @ (if email_key c \<noteq> [] \<and> email_key c \<notin> email_key ` set xs
                  then [c\<lparr>email := email_key c\<rparr>] else [])"
  by (auto simp: dedupe_def dedupe_loop_append keys_of_def Let_def)

lemma first_seen_snoc_old: "i < length xs \<Longrightarrow> first_seen (xs @ [c]) i = first_seen xs i"
  by (auto simp: first_seen_def nth_append)

lemma first_seen_snoc_new:
  "first_seen (xs @ [c]) (length xs) \<longleftrightarrow> email_key c \<noteq> [] \<and> email_key c \<notin> email_key ` set xs"
proof -
  have "(\<forall>j < length xs. email_key (xs ! j) \<noteq> email_key c) \<longleftrightarrow> email_key c \<notin> email_key ` set xs"
  proof
    assume a: "\<forall>j < length xs. email_key (xs ! j) \<noteq> email_key c"
    show "email_key c \<notin> email_key ` set xs"
    proof
      assume "email_key c \<in> email_key ` set xs"
      then obtain x where "x \<in> set xs" and e: "email_key c = email_key x" by blast
      then obtain j where "j < length xs" and "xs ! j = x" by (auto simp: in_set_conv_nth)
      with a e show False by auto
    qed
  next
    assume "email_key c \<notin> email_key ` set xs"
    then show "\<forall>j < length xs. email_key (xs ! j) \<noteq> email_key c"
      by (metis image_eqI nth_mem)
  qed
  then show ?thesis by (simp add: first_seen_def nth_append)
qed

lemma dedupe_spec_snoc:
  "dedupe_spec (xs @ [c]) =
     dedupe_spec xs @ (if email_key c \<noteq> [] \<and> email_key c \<notin> email_key ` set xs
                       then [c\<lparr>email := email_key c\<rparr>] else [])"
proof -
  have f: "filter (first_seen (xs @ [c])) [0 ..< length xs] = filter (first_seen xs) [0 ..< length xs]"
    by (rule filter_cong) (auto simp: first_seen_snoc_old)
  have m: "map (\<lambda>i. ((xs @ [c]) ! i)\<lparr>email := email_key ((xs @ [c]) ! i)\<rparr>) (filter (first_seen xs) [0 ..< length xs])
         = map (\<lambda>i. (xs ! i)\<lparr>email := email_key (xs ! i)\<rparr>) (filter (first_seen xs) [0 ..< length xs])"
    by (rule map_cong) (auto simp: nth_append)
  show ?thesis
    unfolding dedupe_spec_def
    using first_seen_snoc_new [of xs c]
    by (simp add: f m)
qed

lemma dedupe_eq_spec: "dedupe xs = dedupe_spec xs"
proof (induction xs rule: rev_induct)
  case Nil
  show ?case by (simp add: dedupe_def dedupe_spec_def)
next
  case (snoc c xs)
  then show ?case by (simp only: dedupe_snoc dedupe_spec_snoc)
qed



lemma dedupe_Nil: "dedupe [] = []"
  by (simp add: dedupe_def)

lemma length_dedupe: "length (dedupe xs) \<le> length xs"
  by (induction xs rule: rev_induct) (auto simp: dedupe_snoc dedupe_Nil)

lemma dedupe_emails: "email ` set (dedupe xs) = email_key ` set xs - {[]}"
proof (induction xs rule: rev_induct)
  case Nil
  show ?case by (simp add: dedupe_Nil)
next
  case (snoc c xs)
  show ?case
  proof (cases "email_key c \<noteq> [] \<and> email_key c \<notin> email_key ` set xs")
    case True
    then have "dedupe (xs @ [c]) = dedupe xs @ [c\<lparr>email := email_key c\<rparr>]"
      by (simp add: dedupe_snoc)
    then have "email ` set (dedupe (xs @ [c])) = insert (email_key c) (email ` set (dedupe xs))"
      by simp
    with snoc.IH True show ?thesis by auto
  next
    case False
    then have "dedupe (xs @ [c]) = dedupe xs" by (auto simp: dedupe_snoc)
    with snoc.IH False show ?thesis by auto
  qed
qed

lemma dedupe_distinct: "distinct (map email (dedupe xs))"
  by (induction xs rule: rev_induct) (auto simp: dedupe_snoc dedupe_Nil dedupe_emails)

lemma dedupe_normal: "c \<in> set (dedupe xs) \<Longrightarrow> email_key c = email c \<and> email c \<noteq> []"
  by (induction xs rule: rev_induct) (auto simp: dedupe_snoc dedupe_Nil email_key_idem split: if_splits)

lemma dedupe_fixed:
  "distinct (map email ys) \<Longrightarrow> (\<forall>c \<in> set ys. email_key c = email c \<and> email c \<noteq> []) \<Longrightarrow> dedupe ys = ys"
proof (induction ys rule: rev_induct)
  case Nil
  show ?case by (simp add: dedupe_def)
next
  case (snoc c ys)
  then have ih: "dedupe ys = ys" by simp
  have k: "email_key c = email c" "email c \<noteq> []" using snoc.prems by auto
  have "email c \<notin> email ` set ys" using snoc.prems by auto
  moreover have "email_key ` set ys = email ` set ys" using snoc.prems by (auto simp: image_iff)
  ultimately have "email_key c \<notin> email_key ` set ys" using k by simp
  then show ?case using k ih by (simp add: dedupe_snoc)
qed

text \<open>
  C7: deduplication is idempotent: deduplicating an already deduplicated list returns
  it unchanged.
\<close>

theorem dedupe_idempotent: "dedupe (dedupe xs) = dedupe xs"
  by (rule dedupe_fixed) (auto simp: dedupe_distinct dedupe_normal)


theorem dedupe_idempotent_witness:
  "dedupe (dedupe
     [\<lparr>full_name = ''Jane Doe'', first_name = ''Jane'', last_name = ''Doe'',
       email = ''A@x.com'', domain = Some ''x.com''\<rparr>,
      \<lparr>full_name = ''Bob'', first_name = ''Bob'', last_name = [],
       email = ''a@x.com'', domain = Some ''x.com''\<rparr>])
   = [\<lparr>full_name = ''Jane Doe'', first_name = ''Jane'', last_name = ''Doe'',
       email = ''a@x.com'', domain = Some ''x.com''\<rparr>]"
proof -
  have "dedupe
     [\<lparr>full_name = ''Jane Doe'', first_name = ''Jane'', last_name = ''Doe'',
       email = ''A@x.com'', domain = Some ''x.com''\<rparr>,
      \<lparr>full_name = ''Bob'', first_name = ''Bob'', last_name = [],
       email = ''a@x.com'', domain = Some ''x.com''\<rparr>]
   = [\<lparr>full_name = ''Jane Doe'', first_name = ''Jane'', last_name = ''Doe'',
       email = ''a@x.com'', domain = Some ''x.com''\<rparr>]"
    by (simp add: dedupe_eval)
  with dedupe_idempotent show ?thesis by (rule trans)
qed

text \<open>
  C8: the deduplicated list is at most as long as the input, and the metric
  "Duplicates Removed" is the length of the input minus the length of the deduplicated
  list (the metrics are shown when the deduplicated list is not empty).
\<close>

theorem dedupe_count:
  "length (dedupe xs) \<le> length xs \<and>
   (case statistics xs of
      None \<Rightarrow> dedupe xs = []
    | Some (n_total, n_unique, n_removed) \<Rightarrow>
        n_total = int (length xs) \<and> n_unique = int (length (dedupe xs)) \<and>
        n_removed = int (length xs) - int (length (dedupe xs)) \<and>
        n_removed = int (length xs - length (dedupe xs)))"
  using length_dedupe [of xs] by (simp add: statistics_def Let_def)

theorem dedupe_count_witness:
  "statistics
     [\<lparr>full_name = ''Jane Doe'', first_name = ''Jane'', last_name = ''Doe'',
       email = ''A@x.com'', domain = Some ''x.com''\<rparr>,
      \<lparr>full_name = ''Bob'', first_name = ''Bob'', last_name = [],
       email = ''a@x.com'', domain = Some ''x.com''\<rparr>] = Some (2, 1, 1) \<and>
   length (dedupe
     [\<lparr>full_name = ''Jane Doe'', first_name = ''Jane'', last_name = ''Doe'',
       email = ''A@x.com'', domain = Some ''x.com''\<rparr>,
      \<lparr>full_name = ''Bob'', first_name = ''Bob'', last_name = [],
       email = ''a@x.com'', domain = Some ''x.com''\<rparr>]) = 1"
proof -
  have d: "dedupe
     [\<lparr>full_name = ''Jane Doe'', first_name = ''Jane'', last_name = ''Doe'',
       email = ''A@x.com'', domain = Some ''x.com''\<rparr>,
      \<lparr>full_name = ''Bob'', first_name = ''Bob'', last_name = [],
       email = ''a@x.com'', domain = Some ''x.com''\<rparr>]
    = [\<lparr>full_name = ''Jane Doe'', first_name = ''Jane'', last_name = ''Doe'',
       email = ''a@x.com'', domain = Some ''x.com''\<rparr>]"
    by (simp add: dedupe_eval)
  show ?thesis
    using dedupe_count [of "[\<lparr>full_name = ''Jane Doe'', first_name = ''Jane'', last_name = ''Doe'',
       email = ''A@x.com'', domain = Some ''x.com''\<rparr>,
      \<lparr>full_name = ''Bob'', first_name = ''Bob'', last_name = [],
       email = ''a@x.com'', domain = Some ''x.com''\<rparr>]"]
    by (auto simp: d statistics_def Let_def)
qed

subsection \<open>The input is not mutated\<close>

lemma dedupe_store_loop_eq:
  "\<forall>r \<in> set rs. r < length store \<Longrightarrow>
   dedupe_store_loop rs store S acc =
     (store @ dedupe_loop (map (\<lambda>r. store ! r) rs) S [],
      acc @ [length store ..< length store + length (dedupe_loop (map (\<lambda>r. store ! r) rs) S [])])"
proof (induction rs arbitrary: store S acc)
  case Nil
  show ?case by simp
next
  case (Cons r rs)
  define e where "e = email_key (store ! r)"
  show ?case
  proof (cases "e \<noteq> [] \<and> e \<notin> S")
    case False
    have "\<forall>r \<in> set rs. r < length store" using Cons.prems by simp
    from Cons.IH [OF this, of S acc] False show ?thesis
      by (auto simp: e_def Let_def)
  next
    case True
    define store2 where "store2 = store @ [(store ! r)\<lparr>email := e\<rparr>]"
    have s2: "set_email (fst (dict_copy store r)) (snd (dict_copy store r)) e = store2"
      by (simp add: set_email_def dict_copy_def store2_def)
    have in2: "\<forall>r \<in> set rs. r < length store2" using Cons.prems by (auto simp: store2_def)
    have same: "map (\<lambda>r. store2 ! r) rs = map (\<lambda>r. store ! r) rs"
      using Cons.prems by (auto simp: store2_def nth_append)
    define rest where "rest = dedupe_loop (map (\<lambda>r. store ! r) rs) (insert e S) []"
    have step: "dedupe_store_loop (r # rs) store S acc =
        dedupe_store_loop rs store2 (insert e S) (acc @ [length store])"
      using True s2 by (simp add: e_def Let_def dict_copy_def split_def)
    have loop: "dedupe_loop (map (\<lambda>r. store ! r) (r # rs)) S [] = (store ! r)\<lparr>email := e\<rparr> # rest"
      using True dedupe_loop_acc [of "map (\<lambda>r. store ! r) rs" "insert e S" "[(store ! r)\<lparr>email := e\<rparr>]"]
      by (simp add: e_def Let_def rest_def)
    have upt: "[length store] @ [length store2 ..< length store2 + length rest]
        = [length store ..< length store + length ((store ! r)\<lparr>email := e\<rparr> # rest)]"
    proof -
      have "[length store ..< length store + Suc (length rest)]
          = length store # [Suc (length store) ..< length store + Suc (length rest)]"
        by (rule upt_conv_Cons) simp
      then show ?thesis by (simp add: store2_def)
    qed
    show ?thesis
      unfolding step loop
      using Cons.IH [OF in2, of "insert e S" "acc @ [length store]"] upt
      by (simp add: same rest_def [symmetric]) (simp add: store2_def)
  qed
qed

text \<open>
  C10: deduplication does not mutate its input. When every reference of the input list
  points into the store, every dictionary that existed before the loop is unchanged
  after it; every entry of the output is a distinct, freshly allocated dictionary; and
  each of them equals an input contact in all fields except the email, which is the
  trimmed, lower-cased email of that contact. The output dictionaries read in order are
  the deduplicated list of the input dictionaries.
\<close>

theorem dedupe_store_frame:
  assumes "\<forall>r \<in> set contacts. r < length store"
    and "dedupe_store store contacts = (store', unique_contacts)"
  shows "take (length store) store' = store \<and>
         distinct unique_contacts \<and>
         (\<forall>u \<in> set unique_contacts. length store \<le> u \<and> u < length store') \<and>
         map (\<lambda>u. store' ! u) unique_contacts = dedupe (map (\<lambda>r. store ! r) contacts) \<and>
         (\<forall>u \<in> set unique_contacts. \<exists>r \<in> set contacts.
            email (store' ! u) = email_key (store ! r) \<and>
            full_name (store' ! u) = full_name (store ! r) \<and>
            first_name (store' ! u) = first_name (store ! r) \<and>
            last_name (store' ! u) = last_name (store ! r) \<and>
            domain (store' ! u) = domain (store ! r))"
proof -
  define out where "out = dedupe (map (\<lambda>r. store ! r) contacts)"
  have eq: "store' = store @ out" "unique_contacts = [length store ..< length store + length out]"
    using assms dedupe_store_loop_eq [OF assms(1), of "{}" "[]"]
    by (auto simp: dedupe_store_def out_def dedupe_def)
  have a: "take (length store) store' = store" by (simp add: eq)
  have b: "distinct unique_contacts" by (simp add: eq)
  have c: "\<forall>u \<in> set unique_contacts. length store \<le> u \<and> u < length store'" by (auto simp: eq)
  have m: "map (\<lambda>u. store' ! u) unique_contacts = dedupe (map (\<lambda>r. store ! r) contacts)"
    unfolding out_def [symmetric] eq
    by (rule nth_equalityI) (auto simp: nth_append)
  have d: "\<forall>u \<in> set unique_contacts. \<exists>r \<in> set contacts.
           email (store' ! u) = email_key (store ! r) \<and>
           full_name (store' ! u) = full_name (store ! r) \<and>
           first_name (store' ! u) = first_name (store ! r) \<and>
           last_name (store' ! u) = last_name (store ! r) \<and>
           domain (store' ! u) = domain (store ! r)"
  proof
    fix u assume "u \<in> set unique_contacts"
    then have "store' ! u \<in> set (map (\<lambda>u. store' ! u) unique_contacts)" by simp
    then have "store' ! u \<in> set (dedupe_spec (map (\<lambda>r. store ! r) contacts))"
      by (simp only: m dedupe_eq_spec)
    then obtain i where "i < length contacts"
      and "store' ! u = (store ! (contacts ! i))\<lparr>email := email_key (store ! (contacts ! i))\<rparr>"
      by (auto simp: dedupe_spec_def)
    then show "\<exists>r \<in> set contacts.
           email (store' ! u) = email_key (store ! r) \<and>
           full_name (store' ! u) = full_name (store ! r) \<and>
           first_name (store' ! u) = first_name (store ! r) \<and>
           last_name (store' ! u) = last_name (store ! r) \<and>
           domain (store' ! u) = domain (store ! r)"
      by (intro bexI [of _ "contacts ! i"]) auto
  qed
  from a b c m d show ?thesis by blast
qed

theorem dedupe_store_frame_witness:
  "dedupe_store
     [\<lparr>full_name = ''Jane Doe'', first_name = ''Jane'', last_name = ''Doe'',
       email = ''A@x.com'', domain = Some ''x.com''\<rparr>,
      \<lparr>full_name = ''Bob'', first_name = ''Bob'', last_name = [],
       email = ''a@x.com'', domain = Some ''x.com''\<rparr>] [0, 1, 0]
   = ([\<lparr>full_name = ''Jane Doe'', first_name = ''Jane'', last_name = ''Doe'',
        email = ''A@x.com'', domain = Some ''x.com''\<rparr>,
       \<lparr>full_name = ''Bob'', first_name = ''Bob'', last_name = [],
        email = ''a@x.com'', domain = Some ''x.com''\<rparr>,
       \<lparr>full_name = ''Jane Doe'', first_name = ''Jane'', last_name = ''Doe'',
        email = ''a@x.com'', domain = Some ''x.com''\<rparr>], [2]) \<and>
   take 2
     [\<lparr>full_name = ''Jane Doe'', first_name = ''Jane'', last_name = ''Doe'',
        email = ''A@x.com'', domain = Some ''x.com''\<rparr>,
       \<lparr>full_name = ''Bob'', first_name = ''Bob'', last_name = [],
        email = ''a@x.com'', domain = Some ''x.com''\<rparr>,
       \<lparr>full_name = ''Jane Doe'', first_name = ''Jane'', last_name = ''Doe'',
        email = ''a@x.com'', domain = Some ''x.com''\<rparr>]
   = [\<lparr>full_name = ''Jane Doe'', first_name = ''Jane'', last_name = ''Doe'',
       email = ''A@x.com'', domain = Some ''x.com''\<rparr>,
      \<lparr>full_name = ''Bob'', first_name = ''Bob'', last_name = [],
       email = ''a@x.com'', domain = Some ''x.com''\<rparr>]"
proof -
  define jane where "jane = \<lparr>full_name = ''Jane Doe'', first_name = ''Jane'', last_name = ''Doe'',
       email = ''A@x.com'', domain = Some ''x.com''\<rparr>"
  define bob where "bob = \<lparr>full_name = ''Bob'', first_name = ''Bob'', last_name = [],
       email = ''a@x.com'', domain = Some ''x.com''\<rparr>"
  have kj: "email_key jane = ''a@x.com''" and kb: "email_key bob = ''a@x.com''"
    by (simp_all add: jane_def bob_def email_key_def strip_defs table_defs)
  have h1: "\<forall>r \<in> set [0, 1, 0]. r < length [jane, bob]" by simp
  have h2: "dedupe_store [jane, bob] [0, 1, 0] = ([jane, bob, jane\<lparr>email := ''a@x.com''\<rparr>], [2])"
    by (simp add: dedupe_store_def dict_copy_def set_email_def kj kb Let_def)
  from dedupe_store_frame [OF h1 h2]
  have "take (length [jane, bob]) [jane, bob, jane\<lparr>email := ''a@x.com''\<rparr>] = [jane, bob]"
    by blast
  with h2 show ?thesis by (simp add: jane_def bob_def)
qed

section \<open>The builder from a bare address\<close>

lemmas name_email_eval = create_contact_from_name_email_def create_contact_from_name_email_try_def
  sub_nonword_def sub_spaces_def split_ws_def getitem_def extract_domain_from_email_def
  strip_defs table_defs Let_def

lemmas email_only_eval = create_contact_from_email_only_def
  create_contact_from_email_only_try_def getitem_def extract_domain_from_email_def
  strip_defs table_defs

lemmas extract_eval = extract_multiple_contacts_def extract_multiple_contacts_try_def
  extract_part_def find_char_def slice_def slice_bound_def

lemma takeWhile_first: "sep \<notin> set a \<Longrightarrow> takeWhile (\<lambda>x. x \<noteq> sep) (a @ sep # r) = a"
  by (induction a) auto

lemma takeWhile_notin: "sep \<notin> set s \<Longrightarrow> takeWhile (\<lambda>x. x \<noteq> sep) s = s"
  by (induction s) auto

lemma split_on_Cons: "split_on sep s = takeWhile (\<lambda>x. x \<noteq> sep) s # tl (split_on sep s)"
proof (cases "sep \<in> set s")
  case False
  then show ?thesis by (simp add: split_on_notin takeWhile_notin)
next
  case True
  then obtain u r where "s = u @ sep # r" and "sep \<notin> set u" by (meson split_list_first)
  then show ?thesis by (simp add: split_on_first takeWhile_first)
qed

lemma getitem_split_on_0: "getitem (split_on sep s) 0 = Inr (takeWhile (\<lambda>x. x \<noteq> sep) s)"
  using split_on_Cons [of sep s] split_on_not_Nil [of sep s]
  by (cases "split_on sep s") (auto simp: getitem_def)

lemma getitem_split_on_1:
  "sep \<notin> set a \<Longrightarrow> getitem (split_on sep (a @ sep # r)) (Suc 0) = Inr (takeWhile (\<lambda>x. x \<noteq> sep) r)"
proof -
  have "split_on sep (a @ sep # r) = a # takeWhile (\<lambda>x. x \<noteq> sep) r # tl (split_on sep r)"
    if "sep \<notin> set a"
    using that split_on_Cons [of sep r] by (simp add: split_on_first)
  moreover assume "sep \<notin> set a"
  ultimately show ?thesis by (simp add: getitem_def)
qed

lemma length_split_on_ge2: "sep \<notin> set a \<Longrightarrow> 2 \<le> length (split_on sep (a @ sep # r))"
  by (simp add: length_split_on)

lemma email_only_try_no_dot:
  assumes "CHR ''.'' \<notin> set (takeWhile (\<lambda>x. x \<noteq> CHR ''@'') e)"
  shows "create_contact_from_email_only e =
     Some \<lparr>full_name = capitalize (takeWhile (\<lambda>x. x \<noteq> CHR ''@'') e),
           first_name = capitalize (takeWhile (\<lambda>x. x \<noteq> CHR ''@'') e),
           last_name = [], email = e, domain = extract_domain_from_email e\<rparr>"
  using assms
  by (simp add: create_contact_from_email_only_def create_contact_from_email_only_try_def
      getitem_split_on_0)

lemma email_only_try_dot:
  assumes "takeWhile (\<lambda>x. x \<noteq> CHR ''@'') e = a @ CHR ''.'' # r" and "CHR ''.'' \<notin> set a"
  shows "create_contact_from_email_only e =
     Some \<lparr>full_name = capitalize (takeWhile (\<lambda>x. x \<noteq> CHR ''@'') e),
           first_name = capitalize a,
           last_name = capitalize (takeWhile (\<lambda>x. x \<noteq> CHR ''.'') r),
           email = e, domain = extract_domain_from_email e\<rparr>"
proof -
  have 0: "getitem (split_on CHR ''.'' (a @ CHR ''.'' # r)) 0 = Inr a"
    using assms(2) by (simp add: getitem_split_on_0 takeWhile_first)
  show ?thesis
    using assms(2)
    by (simp add: create_contact_from_email_only_def create_contact_from_email_only_try_def
      getitem_split_on_0 assms(1) Let_def length_split_on_ge2 getitem_split_on_1
      takeWhile_first del: split_on.simps)
qed

text \<open>
  C4 (amended): for every address the validator accepts, the builder from a bare address
  returns a contact whose full name is the capitalized local part (the text before the
  at sign). When the local part has no dot, the first name is the capitalized local part
  and the last name is empty. When it has a dot, the local part is split at every dot:
  the first name is the capitalized piece before the first dot, the last name is the
  capitalized piece between the first dot and the next one (or the end), and later pieces
  are dropped.
\<close>

theorem email_only_names:
  assumes "is_valid_email (Str e)"
  shows "\<exists>c. create_contact_from_email_only e = Some c \<and> email c = e \<and>
     (let local_part = takeWhile (\<lambda>x. x \<noteq> CHR ''@'') e in
        full_name c = capitalize local_part \<and>
        (CHR ''.'' \<notin> set local_part \<longrightarrow>
           first_name c = capitalize local_part \<and> last_name c = []) \<and>
        (\<forall>a r. local_part = a @ CHR ''.'' # r \<and> CHR ''.'' \<notin> set a \<longrightarrow>
           first_name c = capitalize a \<and>
           last_name c = capitalize (takeWhile (\<lambda>x. x \<noteq> CHR ''.'') r)))"
proof (cases "CHR ''.'' \<in> set (takeWhile (\<lambda>x. x \<noteq> CHR ''@'') e)")
  case False
  then show ?thesis by (auto simp: email_only_try_no_dot Let_def)
next
  case True
  then obtain a r where ar: "takeWhile (\<lambda>x. x \<noteq> CHR ''@'') e = a @ CHR ''.'' # r"
    and a: "CHR ''.'' \<notin> set a" by (meson split_list_first)
  have uniq: "\<And>a' r'. a @ CHR ''.'' # r = a' @ CHR ''.'' # r' \<Longrightarrow> CHR ''.'' \<notin> set a' \<Longrightarrow> a' = a \<and> r' = r"
  proof -
    fix a' r' assume e: "a @ CHR ''.'' # r = a' @ CHR ''.'' # r'" and n: "CHR ''.'' \<notin> set a'"
    have "takeWhile (\<lambda>x. x \<noteq> CHR ''.'') (a @ CHR ''.'' # r) = a" using a by (rule takeWhile_first)
    moreover have "takeWhile (\<lambda>x. x \<noteq> CHR ''.'') (a' @ CHR ''.'' # r') = a'" using n by (rule takeWhile_first)
    ultimately have "a' = a" using e by simp
    with e show "a' = a \<and> r' = r" by simp
  qed
  show ?thesis
    using email_only_try_dot [OF ar a] uniq True
    by (auto simp: Let_def ar)
qed

theorem email_only_names_witness:
  "is_valid_email (Str ''jane.doe@example.com'') \<and>
   (\<exists>c. create_contact_from_email_only ''jane.doe@example.com'' = Some c \<and>
        full_name c = ''Jane.doe'' \<and> first_name c = ''Jane'' \<and> last_name c = ''Doe'')"
proof -
  have v: "is_valid_email (Str ''jane.doe@example.com'')" by (simp add: validator_eval)
  have l: "takeWhile (\<lambda>x. x \<noteq> CHR ''@'') ''jane.doe@example.com'' = ''jane'' @ CHR ''.'' # ''doe''"
    by simp
  have n: "CHR ''.'' \<notin> set ''jane''" by simp
  have k: "capitalize ''jane.doe'' = ''Jane.doe''" "capitalize ''jane'' = ''Jane''"
    "capitalize (takeWhile (\<lambda>x. x \<noteq> CHR ''.'') ''doe'') = ''Doe''"
    by (simp_all add: table_defs)
  from email_only_names [OF v] obtain c where
    c: "create_contact_from_email_only ''jane.doe@example.com'' = Some c"
    and f: "full_name c = capitalize (''jane'' @ CHR ''.'' # ''doe'')"
    and a: "\<forall>a r. ''jane'' @ CHR ''.'' # ''doe'' = a @ CHR ''.'' # r \<and> CHR ''.'' \<notin> set a \<longrightarrow>
           first_name c = capitalize a \<and>
           last_name c = capitalize (takeWhile (\<lambda>x. x \<noteq> CHR ''.'') r)"
    unfolding Let_def l by (elim exE conjE)
  from a n have "first_name c = capitalize ''jane'' \<and>
      last_name c = capitalize (takeWhile (\<lambda>x. x \<noteq> CHR ''.'') ''doe'')"
    by (elim allE [of _ "''jane''"] allE [of _ "''doe''"]) simp
  with v c f k show ?thesis by (intro conjI exI [of _ c]) simp_all
qed

text \<open>
  C4 as stated fails when the local part has two dots: splitting
  \<^verbatim>\<open>first.middle.last\<close> at its first dot into two pieces gives the last name
  \<^verbatim>\<open>Middle.last\<close>, and the builder stores \<^verbatim>\<open>Middle\<close>.
\<close>

theorem email_only_first_dot_counterexample:
  "is_valid_email (Str ''first.middle.last@x.com'') \<and>
   create_contact_from_email_only ''first.middle.last@x.com'' =
     Some \<lparr>full_name = ''First.middle.last'', first_name = ''First'', last_name = ''Middle'',
           email = ''first.middle.last@x.com'', domain = Some ''x.com''\<rparr> \<and>
   names_on_first_dot ''first.middle.last'' = (''First'', ''Middle.last'') \<and>
   ''Middle'' \<noteq> snd (names_on_first_dot ''first.middle.last'')"
proof -
  have v: "is_valid_email (Str ''first.middle.last@x.com'')" by (simp add: validator_eval)
  have c: "create_contact_from_email_only ''first.middle.last@x.com'' =
     Some \<lparr>full_name = ''First.middle.last'', first_name = ''First'', last_name = ''Middle'',
           email = ''first.middle.last@x.com'', domain = Some ''x.com''\<rparr>"
    by (simp add: email_only_eval)
  have s: "names_on_first_dot ''first.middle.last'' = (''First'', ''Middle.last'')"
    by (simp add: names_on_first_dot_def table_defs)
  have n: "''Middle'' \<noteq> snd (names_on_first_dot ''first.middle.last'')"
    unfolding s by simp
  from v c s n show ?thesis by (intro conjI)
qed

section \<open>The extractor\<close>

text \<open>
  C3: for every field value, either no exception is raised in the extractor, or one is
  raised by the coercion to a string, the list of contacts is still empty at that point
  and the extractor returns the empty list. The extractor returns a list in both cases:
  no exception leaves it.
\<close>

theorem extract_error_empty:
  "(\<exists>valid_contacts. extract_multiple_contacts_try obj = Inr valid_contacts \<and>
       extract_multiple_contacts obj = valid_contacts) \<or>
   (\<exists>err. py_str obj = Inl err \<and> extract_multiple_contacts_try obj = Inl (err, []) \<and>
       extract_multiple_contacts obj = [])"
  by (cases "py_str obj")
     (auto simp: extract_multiple_contacts_def extract_multiple_contacts_try_def Let_def)

theorem extract_error_empty_witness:
  "extract_multiple_contacts_try (Other None) = Inl (StrError, []) \<and>
   extract_multiple_contacts (Other None) = []"
proof -
  have "py_str (Other None) = Inl StrError" by simp
  with extract_error_empty [of "Other None"] show ?thesis
    by (auto simp: extract_multiple_contacts_try_def)
qed

lemma dropWhile_first: "sep \<notin> set a \<Longrightarrow> dropWhile (\<lambda>x. x \<noteq> sep) (a @ sep # r) = sep # r"
  by (induction a) auto

lemma mem_dropWhile: "x \<in> set xs \<Longrightarrow> \<not> P x \<Longrightarrow> x \<in> set (dropWhile P xs)"
  by (induction xs) auto

lemma strip_keeps: "x \<in> set s \<Longrightarrow> \<not> isspace x \<Longrightarrow> x \<in> set (strip s)"
  by (simp add: strip_def lstrip_def rstrip_def mem_dropWhile)

lemma dot_not_space: "\<not> isspace CHR ''.''"
  by (simp add: isspace_def whitespace_def)

lemma name_email_fields:
  "create_contact_from_name_email n e = Some c \<Longrightarrow>
     email c = e \<and> domain c = extract_domain_from_email e"
  by (auto simp: create_contact_from_name_email_def create_contact_from_name_email_try_def
      Let_def split: if_splits sum.splits prod.splits)

lemma email_only_fields:
  "create_contact_from_email_only e = Some c \<Longrightarrow>
     email c = e \<and> domain c = extract_domain_from_email e"
  by (auto simp: create_contact_from_email_only_def create_contact_from_email_only_try_def
      Let_def split: if_splits sum.splits prod.splits)

lemma extract_part_cases:
  "extract_part p cs = cs \<or>
   (\<exists>n e c. extract_part p cs = cs @ [c] \<and> create_contact_from_name_email n (strip e) = Some c) \<or>
   (\<exists>e c. extract_part p cs = cs @ [c] \<and> create_contact_from_email_only (strip e) = Some c)"
  unfolding extract_part_def Let_def
  by (auto split: option.splits)

lemma extract_part_well_built:
  assumes "\<forall>c \<in> set cs. well_built c"
  shows "\<forall>c \<in> set (extract_part p cs). well_built c"
  using extract_part_cases [of p cs] assms
  by (auto simp: well_built_def strip_idem dest!: name_email_fields email_only_fields)

lemma extract_loop_well_built:
  "\<forall>c \<in> set cs. well_built c \<Longrightarrow> \<forall>c \<in> set (extract_loop ps cs). well_built c"
proof (induction ps arbitrary: cs)
  case Nil
  then show ?case by simp
next
  case (Cons p ps)
  show ?case
    using Cons.IH [OF Cons.prems] Cons.IH [OF extract_part_well_built [OF Cons.prems, of p]]
    by simp
qed

lemma extract_members:
  assumes "c \<in> set (extract_multiple_contacts obj)"
  shows "is_valid_email (Str (email c)) \<and> well_built c"
proof (cases "extract_multiple_contacts_try obj")
  case (Inl a)
  with assms show ?thesis
    by (cases "py_str obj")
       (auto simp: extract_multiple_contacts_def extract_multiple_contacts_try_def Let_def
          split: if_splits)
next
  case (Inr r)
  have wb: "\<forall>c \<in> set (extract_loop ps []). well_built c" for ps
    by (rule extract_loop_well_built) simp
  from Inr assms show ?thesis
    using wb
    by (cases "py_str obj")
       (auto simp: extract_multiple_contacts_def extract_multiple_contacts_try_def Let_def
          split: if_splits)
qed

lemma valid_stripped_domain:
  assumes "is_valid_email (Str e)" and "strip e = e"
  shows "\<exists>d. extract_domain_from_email e = Some d \<and> d \<noteq> [] \<and> CHR ''.'' \<in> set d \<and>
              d = strip (after_at e)"
proof -
  from assms obtain u d where sp: "split_on CHR ''@'' e = [u, d]" and dot: "CHR ''.'' \<in> set d"
    unfolding is_valid_email_Str by auto
  then have e: "e = u @ CHR ''@'' # d" and u: "CHR ''@'' \<notin> set u"
    unfolding split_on_two_iff by auto
  have aa: "after_at e = d"
    using u by (simp add: after_at_def e dropWhile_first)
  have dm: "extract_domain_from_email e = Some (strip d)"
    using sp e by (simp add: extract_domain_from_email_def getitem_def del: split_on.simps)
  have "CHR ''.'' \<in> set (strip d)" using dot dot_not_space by (rule strip_keeps)
  then show ?thesis using dm aa by auto
qed

text \<open>
  C9 (amended): every contact the extractor returns is a record with the five fields;
  its email passes the validator; and its domain is present, not empty, contains a dot
  and equals the trimmed substring of the email after the at sign.
\<close>

theorem extracted_contact_invariant:
  assumes "c \<in> set (extract_multiple_contacts obj)"
  shows "is_valid_email (Str (email c)) \<and>
         (\<exists>d. domain c = Some d \<and> d \<noteq> [] \<and> CHR ''.'' \<in> set d \<and>
              d = strip (after_at (email c)))"
proof -
  from extract_members [OF assms] have v: "is_valid_email (Str (email c))"
    and s: "strip (email c) = email c"
    and d: "domain c = extract_domain_from_email (email c)"
    by (auto simp: well_built_def)
  from valid_stripped_domain [OF v s] d v show ?thesis by simp
qed

theorem extracted_contact_invariant_witness:
  "extract_multiple_contacts (Str ''bob@y.com'') =
     [\<lparr>full_name = ''Bob'', first_name = ''Bob'', last_name = [],
       email = ''bob@y.com'', domain = Some ''y.com''\<rparr>] \<and>
   is_valid_email (Str ''bob@y.com'') \<and>
   strip (after_at ''bob@y.com'') = ''y.com''"
proof -
  define c0 where "c0 = \<lparr>full_name = ''Bob'', first_name = ''Bob'', last_name = [],
       email = ''bob@y.com'', domain = Some ''y.com''\<rparr>"
  have v: "is_valid_email (Str ''bob@y.com'')" by (simp add: validator_eval)
  have s: "strip ''bob@y.com'' = ''bob@y.com''" by (simp add: strip_defs table_defs)
  have b: "create_contact_from_email_only ''bob@y.com'' = Some c0"
    by (simp add: email_only_eval c0_def)
  have 1: "extract_multiple_contacts (Str ''bob@y.com'') = [c0]"
    by (simp add: extract_eval s v b) (simp add: c0_def v)
  then have m: "c0 \<in> set (extract_multiple_contacts (Str ''bob@y.com''))" by simp
  from extracted_contact_invariant [OF m]
  have "is_valid_email (Str ''bob@y.com'') \<and> strip (after_at ''bob@y.com'') = ''y.com''"
    by (simp add: c0_def)
  with 1 show ?thesis by (simp add: c0_def)
qed

text \<open>
  C9 as stated fails where whitespace follows the at sign: for the field
  \<^verbatim>\<open>a@ b.c\<close> the extractor returns a contact with the email \<^verbatim>\<open>a@ b.c\<close>, whose
  substring after the at sign starts with a space, and with the domain \<^verbatim>\<open>b.c\<close>.
\<close>

theorem extracted_domain_counterexample:
  "extract_multiple_contacts (Str ''a@ b.c'') =
     [\<lparr>full_name = ''A'', first_name = ''A'', last_name = [],
       email = ''a@ b.c'', domain = Some ''b.c''\<rparr>] \<and>
   is_valid_email (Str ''a@ b.c'') \<and>
   after_at ''a@ b.c'' = '' b.c'' \<and>
   Some ''b.c'' \<noteq> Some (after_at ''a@ b.c'')"
proof -
  have v: "is_valid_email (Str ''a@ b.c'')" by (simp add: validator_eval)
  have s: "strip ''a@ b.c'' = ''a@ b.c''" by (simp add: strip_defs table_defs)
  have b: "create_contact_from_email_only ''a@ b.c'' =
     Some \<lparr>full_name = ''A'', first_name = ''A'', last_name = [],
       email = ''a@ b.c'', domain = Some ''b.c''\<rparr>"
    by (simp add: email_only_eval)
  have 1: "extract_multiple_contacts (Str ''a@ b.c'') =
     [\<lparr>full_name = ''A'', first_name = ''A'', last_name = [],
       email = ''a@ b.c'', domain = Some ''b.c''\<rparr>]"
    by (simp add: extract_eval s v b)
  have 2: "after_at ''a@ b.c'' = '' b.c''" by (simp add: after_at_def)
  have 3: "Some ''b.c'' \<noteq> Some (after_at ''a@ b.c'')" unfolding 2 by simp
  from 1 v 2 3 show ?thesis by (intro conjI)
qed

lemma find_char_first: "ch \<notin> set pre \<Longrightarrow> find_char ch (pre @ ch # rest) = int (length pre)"
  by (simp add: find_char_def takeWhile_first)

lemma slice_prefix: "slice (pre @ rest) 0 (int (length pre)) = pre"
  by (simp add: slice_def slice_bound_def Let_def)

lemma slice_middle:
  "slice (pre @ x # mid @ y # post) (int (length pre) + 1) (int (length pre) + 1 + int (length mid)) = mid"
proof -
  have b: "slice_bound (pre @ x # mid @ y # post) (int (length pre) + 1 + int (length mid))
      = length pre + 1 + length mid"
    by (simp add: slice_bound_def Let_def)
  have a: "slice_bound (pre @ x # mid @ y # post) (int (length pre) + 1) = length pre + 1"
    by (simp add: slice_bound_def Let_def)
  have "take (length pre + 1 + length mid) (pre @ x # mid @ y # post) = pre @ x # mid"
    by simp
  then show ?thesis unfolding slice_def a b by simp
qed

lemma slice_empty: "0 \<le> a \<Longrightarrow> 0 \<le> b \<Longrightarrow> b \<le> a \<Longrightarrow> slice s a b = []"
  by (auto simp: slice_def slice_bound_def Let_def)


lemma extract_part_found:
  assumes "CHR ''<'' \<notin> set pre" "CHR ''>'' \<notin> set pre" "CHR ''>'' \<notin> set mid"
  shows "extract_part (pre @ CHR ''<'' # mid @ CHR ''>'' # post) contacts =
     (if strip pre \<noteq> [] \<and> strip mid \<noteq> [] \<and> is_valid_email (Str (strip mid)) then
        (case create_contact_from_name_email (strip pre) (strip mid) of
           Some c \<Rightarrow> contacts @ [c]
         | None \<Rightarrow> contacts)
      else contacts)"
proof -
  define p where "p = pre @ CHR ''<'' # mid @ CHR ''>'' # post"
  have s: "find_char CHR ''<'' p = int (length pre)"
    unfolding p_def using assms(1) by (rule find_char_first)
  have "find_char CHR ''>'' ((pre @ CHR ''<'' # mid) @ CHR ''>'' # post) = int (length (pre @ CHR ''<'' # mid))"
    using assms by (intro find_char_first) simp
  then have e: "find_char CHR ''>'' p = int (length pre) + 1 + int (length mid)"
    by (simp add: p_def)
  have n: "slice p 0 (int (length pre)) = pre"
    unfolding p_def by (rule slice_prefix)
  have m: "slice p (int (length pre) + 1) (int (length pre) + 1 + int (length mid)) = mid"
    unfolding p_def by (rule slice_middle)
  have mem: "CHR ''<'' \<in> set p" "CHR ''>'' \<in> set p" by (simp_all add: p_def)
  have "extract_part p contacts =
     (if strip pre \<noteq> [] \<and> strip mid \<noteq> [] \<and> is_valid_email (Str (strip mid)) then
        (case create_contact_from_name_email (strip pre) (strip mid) of
           Some c \<Rightarrow> contacts @ [c]
         | None \<Rightarrow> contacts)
      else contacts)"
    unfolding extract_part_def Let_def s e n m using mem by simp
  then show ?thesis by (simp only: p_def)
qed

lemma extract_part_stray:
  assumes "CHR ''<'' \<notin> set pre" "CHR ''>'' \<notin> set pre" "CHR ''<'' \<in> set rest"
  shows "extract_part (pre @ CHR ''>'' # rest) contacts = contacts"
proof -
  define p where "p = pre @ CHR ''>'' # rest"
  from assms(3) obtain r1 r2 where r: "rest = r1 @ CHR ''<'' # r2" and r1: "CHR ''<'' \<notin> set r1"
    by (meson split_list_first)
  have e: "find_char CHR ''>'' p = int (length pre)"
    unfolding p_def using assms(2) by (rule find_char_first)
  have "find_char CHR ''<'' ((pre @ CHR ''>'' # r1) @ CHR ''<'' # r2) = int (length (pre @ CHR ''>'' # r1))"
    using assms(1) r1 by (intro find_char_first) simp
  then have s: "find_char CHR ''<'' p = int (length pre) + 1 + int (length r1)"
    by (simp add: p_def r)
  have m: "slice p (int (length pre) + 1 + int (length r1) + 1) (int (length pre)) = []"
    by (rule slice_empty) simp_all
  have mem: "CHR ''<'' \<in> set p" "CHR ''>'' \<in> set p" by (simp_all add: p_def r)
  have "extract_part p contacts = contacts"
    unfolding extract_part_def Let_def s e m using mem by (simp add: strip_Nil)
  then show ?thesis by (simp only: p_def)
qed

lemma bracket_forms:
  assumes "CHR ''<'' \<in> set p" and "CHR ''>'' \<in> set p"
  shows "(\<exists>pre mid post. p = pre @ CHR ''<'' # mid @ CHR ''>'' # post \<and>
            CHR ''<'' \<notin> set pre \<and> CHR ''>'' \<notin> set pre \<and> CHR ''>'' \<notin> set mid) \<or>
         (\<exists>pre rest. p = pre @ CHR ''>'' # rest \<and>
            CHR ''<'' \<notin> set pre \<and> CHR ''>'' \<notin> set pre \<and> CHR ''<'' \<in> set rest)"
proof -
  from assms(2) obtain a b where p: "p = a @ CHR ''>'' # b" and a: "CHR ''>'' \<notin> set a"
    by (meson split_list_first)
  show ?thesis
  proof (cases "CHR ''<'' \<in> set a")
    case True
    then obtain pre mid where am: "a = pre @ CHR ''<'' # mid" and pre: "CHR ''<'' \<notin> set pre"
      by (meson split_list_first)
    have "p = pre @ CHR ''<'' # mid @ CHR ''>'' # b" by (simp add: p am)
    moreover have "CHR ''>'' \<notin> set pre" "CHR ''>'' \<notin> set mid" using a am by auto
    ultimately show ?thesis using pre by blast
  next
    case False
    then have "CHR ''<'' \<in> set b" using assms(1) p by auto
    with p a False show ?thesis by blast
  qed
qed

text \<open>
  C2 (amended): for a part that contains both brackets the extractor locates the first
  opening bracket and the first closing bracket of the part. When that closing bracket
  comes after the opening one, the trimmed text before the opening bracket is the
  candidate name, the trimmed text between the two is the candidate email, and the
  builder from a name and an email is called, and its contact appended when it returns
  one, exactly when the name is not empty, the email is not empty and the validator
  accepts the email. When the first closing bracket comes before the first opening one,
  the part yields no contact. Every part with both brackets is of one of the two forms.
\<close>

theorem extract_part_brackets:
  "(p = pre @ CHR ''<'' # mid @ CHR ''>'' # post \<and>
    CHR ''<'' \<notin> set pre \<and> CHR ''>'' \<notin> set pre \<and> CHR ''>'' \<notin> set mid \<longrightarrow>
      extract_part p contacts =
        (if strip pre \<noteq> [] \<and> strip mid \<noteq> [] \<and> is_valid_email (Str (strip mid)) then
           (case create_contact_from_name_email (strip pre) (strip mid) of
              Some c \<Rightarrow> contacts @ [c]
            | None \<Rightarrow> contacts)
         else contacts)) \<and>
   (p = pre @ CHR ''>'' # rest \<and>
    CHR ''<'' \<notin> set pre \<and> CHR ''>'' \<notin> set pre \<and> CHR ''<'' \<in> set rest \<longrightarrow>
      extract_part p contacts = contacts) \<and>
   (CHR ''<'' \<in> set q \<and> CHR ''>'' \<in> set q \<longrightarrow>
      (\<exists>pre mid post. q = pre @ CHR ''<'' # mid @ CHR ''>'' # post \<and>
          CHR ''<'' \<notin> set pre \<and> CHR ''>'' \<notin> set pre \<and> CHR ''>'' \<notin> set mid) \<or>
      (\<exists>pre rest. q = pre @ CHR ''>'' # rest \<and>
          CHR ''<'' \<notin> set pre \<and> CHR ''>'' \<notin> set pre \<and> CHR ''<'' \<in> set rest))"
  using extract_part_found [of pre mid post contacts] extract_part_stray [of pre rest contacts]
    bracket_forms [of q]
  by simp

theorem extract_part_brackets_witness:
  "extract_part ''Jane Doe <jane@x.com>'' [] =
     [\<lparr>full_name = ''Jane Doe'', first_name = ''Jane'', last_name = ''Doe'',
       email = ''jane@x.com'', domain = Some ''x.com''\<rparr>] \<and>
   extract_part ''ab> <b@c.com>'' [] = []"
proof -
  have h1: "''Jane Doe <jane@x.com>'' = ''Jane Doe '' @ CHR ''<'' # ''jane@x.com'' @ CHR ''>'' # [] \<and>
      CHR ''<'' \<notin> set ''Jane Doe '' \<and> CHR ''>'' \<notin> set ''Jane Doe '' \<and>
      CHR ''>'' \<notin> set ''jane@x.com''"
    by simp
  have h2: "''ab> <b@c.com>'' = ''ab'' @ CHR ''>'' # '' <b@c.com>'' \<and>
      CHR ''<'' \<notin> set ''ab'' \<and> CHR ''>'' \<notin> set ''ab'' \<and> CHR ''<'' \<in> set '' <b@c.com>''"
    by simp
  have s1: "strip ''Jane Doe '' = ''Jane Doe''" and s2: "strip ''jane@x.com'' = ''jane@x.com''"
    by (simp_all add: strip_defs table_defs)
  have v: "is_valid_email (Str ''jane@x.com'')" by (simp add: validator_eval)
  have b: "create_contact_from_name_email ''Jane Doe'' ''jane@x.com'' =
     Some \<lparr>full_name = ''Jane Doe'', first_name = ''Jane'', last_name = ''Doe'',
       email = ''jane@x.com'', domain = Some ''x.com''\<rparr>"
    by (simp add: name_email_eval)
  from extract_part_brackets [where p = "''Jane Doe <jane@x.com>''" and pre = "''Jane Doe ''"
      and mid = "''jane@x.com''" and post = "[]" and contacts = "[]",
      THEN conjunct1, rule_format, OF h1]
  have 1: "extract_part ''Jane Doe <jane@x.com>'' [] =
     [\<lparr>full_name = ''Jane Doe'', first_name = ''Jane'', last_name = ''Doe'',
       email = ''jane@x.com'', domain = Some ''x.com''\<rparr>]"
    unfolding s1 s2 b using v by simp
  from extract_part_brackets [where p = "''ab> <b@c.com>''" and pre = "''ab''"
      and rest = "'' <b@c.com>''" and contacts = "[]",
      THEN conjunct2, THEN conjunct1, rule_format, OF h2]
  have 2: "extract_part ''ab> <b@c.com>'' [] = []" .
  from 1 2 show ?thesis by (rule conjI)
qed

text \<open>
  C2 as stated fails when a closing bracket precedes the first opening one: in
  \<^verbatim>\<open>ab> <b@c.com>\<close> the text before the first opening bracket is a non-empty name,
  the text up to the first closing bracket after it is an address the validator accepts,
  and the builder returns a contact for them, but the extractor builds none.
\<close>

theorem extract_part_first_close_counterexample:
  "bracket_candidates ''ab> <b@c.com>'' = (''ab> '', ''b@c.com'') \<and>
   strip ''ab> '' = ''ab>'' \<and>
   is_valid_email (Str ''b@c.com'') \<and>
   create_contact_from_name_email ''ab>'' ''b@c.com'' =
     Some \<lparr>full_name = ''ab'', first_name = ''ab'', last_name = [],
           email = ''b@c.com'', domain = Some ''c.com''\<rparr> \<and>
   extract_part ''ab> <b@c.com>'' [] = [] \<and>
   extract_part ''ab> <b@c.com>'' [] \<noteq>
     [\<lparr>full_name = ''ab'', first_name = ''ab'', last_name = [],
       email = ''b@c.com'', domain = Some ''c.com''\<rparr>]"
proof -
  have 1: "bracket_candidates ''ab> <b@c.com>'' = (''ab> '', ''b@c.com'')"
    by (simp add: bracket_candidates_def)
  have 2: "strip ''ab> '' = ''ab>''" by (simp add: strip_defs table_defs)
  have 3: "is_valid_email (Str ''b@c.com'')" by (simp add: validator_eval)
  have 4: "create_contact_from_name_email ''ab>'' ''b@c.com'' =
     Some \<lparr>full_name = ''ab'', first_name = ''ab'', last_name = [],
           email = ''b@c.com'', domain = Some ''c.com''\<rparr>"
    by (simp add: name_email_eval)
  have "extract_part (''ab'' @ CHR ''>'' # '' <b@c.com>'') [] = []"
    by (rule extract_part_stray) simp_all
  then have 5: "extract_part ''ab> <b@c.com>'' [] = []" by simp
  have 6: "extract_part ''ab> <b@c.com>'' [] \<noteq>
     [\<lparr>full_name = ''ab'', first_name = ''ab'', last_name = [],
       email = ''b@c.com'', domain = Some ''c.com''\<rparr>]"
    unfolding 5 by simp
  from 1 2 3 4 5 6 show ?thesis by (intro conjI)
qed

end
